theory Spec2Isabelle
  imports Main "HOL-Library.Word"
begin

unbundle bit_operations_syntax

section \<open>The RFM12 packet driver (rfm12lib/rfm12.cpp)\<close>

text \<open>
  A shallow embedding of the packet state machine of \<^verbatim>\<open>rfm12.cpp\<close>: the interrupt handler
  (\<^verbatim>\<open>ISR(RFM12_INT_VECT)\<close> / \<^verbatim>\<open>rfm12_poll\<close>), the collision-avoidance scheduler
  \<^verbatim>\<open>rfm12_tick\<close>, the enqueue functions \<^verbatim>\<open>rfm12_start_tx\<close> and \<^verbatim>\<open>rfm12_tx\<close>, and
  \<^verbatim>\<open>rfm12_rx_clear\<close>. The globals of the file become one record that every function takes
  and returns. The embedding is that of the default build: receive mode and collision
  detection enabled, return values enabled, no power-management shadow register, no debug
  output.
\<close>

subsection \<open>Data model\<close>

type_synonym byte = "8 word"

text \<open>The values of \<^verbatim>\<open>ctrl.rfm12_state\<close>; the handler's \<^verbatim>\<open>switch\<close> has these three cases.\<close>

datatype rfm12_state_t = STATE_RX_IDLE | STATE_RX_ACTIVE | STATE_TX

text \<open>The values of \<^verbatim>\<open>ctrl.txstate\<close> and of a receive buffer's \<^verbatim>\<open>status\<close>.\<close>

datatype status_t = STATUS_FREE | STATUS_OCCUPIED | STATUS_COMPLETE

text \<open>The values that \<^verbatim>\<open>rfm12_tx\<close> and \<^verbatim>\<open>rfm12_start_tx\<close> return through \<^verbatim>\<open>TXRETURN\<close>.\<close>

datatype tx_retval = RFM12_TX_ERROR | RFM12_TX_OCCUPIED | RFM12_TX_ENQUEUED

text \<open>
  The commands the driver sends with \<^verbatim>\<open>rfm12_data\<close>. Their numeric encodings are
  macros of \<^verbatim>\<open>rfm12_hw.h\<close>; only the byte of a transmit command matters here.
  \<^item> \<open>CMD_TX b\<close>: \<^verbatim>\<open>RFM12_CMD_TX | b\<close>, one byte into the transmit register;
  \<^item> \<open>CMD_TX_PAST i\<close>: \<^verbatim>\<open>RFM12_CMD_TX | b\<close> too, where \<open>b\<close> was read \<open>i\<close> bytes past the end of
    \<^verbatim>\<open>rf_tx_buffer\<close>; what lies there depends on the memory layout and on what the rest of the
    program does, so the model does not say which byte it is;
  \<^item> \<open>CMD_PWRMGT_ET\<close>: \<^verbatim>\<open>RFM12_CMD_PWRMGT | PWRMGT_DEFAULT | RFM12_PWRMGT_ET\<close>;
  \<^item> \<open>CMD_PWRMGT_RECEIVE\<close>: \<^verbatim>\<open>PWRMGT_RECEIVE\<close>;
  \<^item> \<open>CMD_FIFORESET_CLEAR\<close>, \<open>CMD_FIFORESET_ACCEPT\<close>:
    \<^verbatim>\<open>RFM12_CMD_FIFORESET | CLEAR_FIFO_INLINE\<close> and \<^verbatim>\<open>... | ACCEPT_DATA_INLINE\<close>.
\<close>

datatype rfm12_cmd =
    CMD_TX byte
  | CMD_TX_PAST nat
  | CMD_PWRMGT_ET
  | CMD_PWRMGT_RECEIVE
  | CMD_FIFORESET_CLEAR
  | CMD_FIFORESET_ACCEPT

text \<open>
  The build configuration. These macros are defined in headers that are not part of
  \<^verbatim>\<open>rfm12.cpp\<close>, so they are parameters of the model: the two buffer sizes, the channel-free
  countdown, the two status masks the code tests, and the synchronisation pattern.
\<close>

record rfm12_config =
  RFM12_TX_BUFFER_SIZE :: nat
  RFM12_RX_BUFFER_SIZE :: nat
  CHANNEL_FREE_TIME :: nat
  RFM12_STATUS_RSSI :: "16 word"
  RFM12_STATUS_FFIT :: "16 word"
  SYNC_MSB :: byte
  SYNC_LSB :: byte

text \<open>
  Modelled from the spec: \<^verbatim>\<open>PACKET_OVERHEAD\<close> is a macro of a header that is not among the
  sources. The header of a packet is \<open>{length, type, checksum}\<close>, three bytes; the handler
  itself tests the checksum at byte 2 and bounds its stores by \<^verbatim>\<open>RFM12_RX_BUFFER_SIZE + 3\<close>.
\<close>

definition PACKET_OVERHEAD :: byte where
  "PACKET_OVERHEAD = 3"

text \<open>\<^verbatim>\<open>PREAMBLE\<close>: the code's comment, "fill 2byte 0xAA preamble into data register".\<close>

definition PREAMBLE :: byte where
  "PREAMBLE = 0xAA"

text \<open>
  Modelled from the spec: the struct declarations \<^verbatim>\<open>rfm12_control_t\<close>, \<^verbatim>\<open>rf_tx_buffer_t\<close> and
  \<^verbatim>\<open>rf_rx_buffer_t\<close> belong to \<^verbatim>\<open>rfm12.h\<close>, which is not among the sources. The transmit
  buffer holds the 2-byte synchronisation pattern, a length byte, a type byte, a checksum
  byte and the payload array, in this order (the handler sends the struct by indexing
  \<^verbatim>\<open>sync\<close> past its end); a receive buffer holds a status, then a length byte, a type byte,
  a checksum byte and the payload array (the handler stores by indexing from \<^verbatim>\<open>len\<close>).
  The counters \<^verbatim>\<open>num_bytes\<close> and \<^verbatim>\<open>bytecount\<close> and the buffer indices are bytes
  (\<^verbatim>\<open>uint8_t\<close>), as every integer variable of \<^verbatim>\<open>rfm12.cpp\<close> that holds a packet byte or a
  count is.
\<close>

record rf_tx_buffer_t =
  tx_sync :: "byte list"
  tx_len :: byte
  tx_type :: byte
  tx_checksum :: byte
  tx_buffer :: "byte list"

record rf_rx_buffer_t =
  rx_status :: status_t
  rx_len :: byte
  rx_type :: byte
  rx_checksum :: byte
  rx_buffer :: "byte list"

record rfm12_control_t =
  rfm12_state :: rfm12_state_t
  txstate :: status_t
  num_bytes :: byte
  bytecount :: byte
  buffer_in_num :: byte
  buffer_out_num :: byte

text \<open>
  The globals: \<^verbatim>\<open>ctrl\<close>, \<^verbatim>\<open>rf_tx_buffer\<close>, \<^verbatim>\<open>rf_rx_buffers[2]\<close>, the handler's static
  \<^verbatim>\<open>checksum\<close> and the scheduler's static \<^verbatim>\<open>channel_free_count\<close>. Two more fields record
  what the code does to its surroundings:
  \<^item> \<open>bus\<close>: the commands sent with \<^verbatim>\<open>rfm12_data\<close>, oldest first;
  \<^item> \<open>overrun\<close>: set when a store through \<^verbatim>\<open>(&rf_rx_buffers[i].len)[n]\<close> lands past the
    end of the slot.
\<close>

record rfm12 =
  ctrl :: rfm12_control_t
  rf_tx_buffer :: rf_tx_buffer_t
  rf_rx_buffers :: "rf_rx_buffer_t list"
  checksum :: byte
  channel_free_count :: byte
  bus :: "rfm12_cmd list"
  overrun :: bool

subsection \<open>Memory accesses through the structs\<close>

text \<open>
  \<^verbatim>\<open>rf_tx_buffer.sync[i]\<close>: the struct as the bytes it occupies; \<open>None\<close> when the index is
  past the end of the struct. \<open>tx_byte_cmd\<close> is the command \<^verbatim>\<open>RFM12_CMD_TX | rf_tx_buffer.sync[i]\<close>.
\<close>

definition tx_struct_image :: "rf_tx_buffer_t \<Rightarrow> byte list" where
  "tx_struct_image b = tx_sync b @ [tx_len b, tx_type b, tx_checksum b] @ tx_buffer b"

definition tx_struct_load :: "rf_tx_buffer_t \<Rightarrow> nat \<Rightarrow> byte option" where
  "tx_struct_load b i =
     (let m = tx_struct_image b in if i < length m then Some (m ! i) else None)"

definition tx_byte_cmd :: "rf_tx_buffer_t \<Rightarrow> nat \<Rightarrow> rfm12_cmd" where
  "tx_byte_cmd b i =
     (case tx_struct_load b i of
        Some d \<Rightarrow> CMD_TX d
      | None \<Rightarrow> CMD_TX_PAST (i - length (tx_struct_image b)))"

text \<open>
  \<^verbatim>\<open>(&b.len)[i] = d\<close>: offset 0 is \<^verbatim>\<open>len\<close>, 1 is \<^verbatim>\<open>type\<close>, 2 is \<^verbatim>\<open>checksum\<close>, and offset
  \<open>i \<ge> 3\<close> is \<^verbatim>\<open>buffer[i - 3]\<close>; \<open>None\<close> when the offset is past the end of the struct.
\<close>

definition rx_struct_store :: "nat \<Rightarrow> byte \<Rightarrow> rf_rx_buffer_t \<Rightarrow> rf_rx_buffer_t option" where
  "rx_struct_store i d b =
     (if i = 0 then Some (b\<lparr>rx_len := d\<rparr>)
      else if i = 1 then Some (b\<lparr>rx_type := d\<rparr>)
      else if i = 2 then Some (b\<lparr>rx_checksum := d\<rparr>)
      else if i - 3 < length (rx_buffer b)
        then Some (b\<lparr>rx_buffer := (rx_buffer b)[i - 3 := d]\<rparr>)
      else None)"

text \<open>\<^verbatim>\<open>memcpy(dst, src, n)\<close> on arrays as lists.\<close>

definition memcpy :: "byte list \<Rightarrow> byte list \<Rightarrow> nat \<Rightarrow> byte list" where
  "memcpy dst src n = take n src @ drop n dst"

text \<open>The slot \<^verbatim>\<open>rf_rx_buffers[ctrl.buffer_in_num]\<close> and an update of it.\<close>

definition rx_in :: "rfm12 \<Rightarrow> rf_rx_buffer_t" where
  "rx_in s = rf_rx_buffers s ! unat (buffer_in_num (ctrl s))"

definition rx_in_map :: "(rf_rx_buffer_t \<Rightarrow> rf_rx_buffer_t) \<Rightarrow> rfm12 \<Rightarrow> rfm12" where
  "rx_in_map f s =
     s\<lparr>rf_rx_buffers := (rf_rx_buffers s)[unat (buffer_in_num (ctrl s)) := f (rx_in s)]\<rparr>"

text \<open>
  The arrays have their declared sizes and the buffer indices are 0 or 1, as
  \<^verbatim>\<open>rfm12_init\<close> and \<^verbatim>\<open>^= 1\<close> leave them.
\<close>

definition wellformed :: "rfm12_config \<Rightarrow> rfm12 \<Rightarrow> bool" where
  "wellformed cfg s =
     (length (tx_sync (rf_tx_buffer s)) = 2 \<and>
      length (tx_buffer (rf_tx_buffer s)) = RFM12_TX_BUFFER_SIZE cfg \<and>
      length (rf_rx_buffers s) = 2 \<and>
      length (rx_buffer (rf_rx_buffers s ! 0)) = RFM12_RX_BUFFER_SIZE cfg \<and>
      length (rx_buffer (rf_rx_buffers s ! 1)) = RFM12_RX_BUFFER_SIZE cfg \<and>
      unat (buffer_in_num (ctrl s)) < 2 \<and>
      unat (buffer_out_num (ctrl s)) < 2)"

subsection \<open>The interrupt handler\<close>

definition rfm12_data :: "rfm12_cmd \<Rightarrow> rfm12 \<Rightarrow> rfm12" where
  "rfm12_data c s = s\<lparr>bus := bus s @ [c]\<rparr>"

text \<open>
  The code after the \<^verbatim>\<open>switch\<close>, which every branch reaches unless it jumps to
  \<^verbatim>\<open>no_fifo_reset\<close>: the state machine goes idle and the receiver FIFO is reset.
\<close>

definition fifo_reset :: "rfm12 \<Rightarrow> rfm12" where
  "fifo_reset s =
     rfm12_data CMD_FIFORESET_ACCEPT
       (rfm12_data CMD_FIFORESET_CLEAR
          (s\<lparr>ctrl := (ctrl s)\<lparr>rfm12_state := STATE_RX_IDLE\<rparr>\<rparr>))"

text \<open>\<^verbatim>\<open>case STATE_RX_IDLE\<close>; \<open>data\<close> is the byte \<^verbatim>\<open>rfm12_read(RFM12_CMD_READ)\<close> returns.\<close>

definition isr_rx_idle :: "byte \<Rightarrow> rfm12 \<Rightarrow> rfm12" where
  "isr_rx_idle data s =
     (let s1 = s\<lparr>ctrl := (ctrl s)\<lparr>bytecount := 1\<rparr>\<rparr>;
          s2 = s1\<lparr>checksum := data\<rparr>;
          s3 = s2\<lparr>ctrl := (ctrl s2)\<lparr>num_bytes := data + PACKET_OVERHEAD\<rparr>\<rparr>
      in if rx_status (rx_in s3) = STATUS_FREE
         then rx_in_map (\<lambda>b. b\<lparr>rx_len := data\<rparr>)
                (s3\<lparr>ctrl := (ctrl s3)\<lparr>rfm12_state := STATE_RX_ACTIVE\<rparr>\<rparr>)
         else fifo_reset s3)"

text \<open>
  "put next byte into buffer, if there is enough space": the guarded store
  \<^verbatim>\<open>(& rf_rx_buffers[ctrl.buffer_in_num].len)[ctrl.bytecount] = data\<close>.
\<close>

definition rx_store_byte :: "rfm12_config \<Rightarrow> byte \<Rightarrow> rfm12 \<Rightarrow> rfm12" where
  "rx_store_byte cfg data s =
     (if unat (bytecount (ctrl s)) < RFM12_RX_BUFFER_SIZE cfg + 3
      then (case rx_struct_store (unat (bytecount (ctrl s))) data (rx_in s) of
              Some b \<Rightarrow> rx_in_map (\<lambda>_. b) s
            | None \<Rightarrow> s\<lparr>overrun := True\<rparr>)
      else s)"

text \<open>\<^verbatim>\<open>case STATE_RX_ACTIVE\<close>.\<close>

definition isr_rx_active :: "rfm12_config \<Rightarrow> byte \<Rightarrow> rfm12 \<Rightarrow> rfm12" where
  "isr_rx_active cfg data s =
     (if bytecount (ctrl s) < num_bytes (ctrl s) then
        let s1 = s\<lparr>checksum := checksum s XOR data\<rparr>;
            s2 = rx_store_byte cfg data s1
        in if bytecount (ctrl s2) = 2 \<and> checksum s2 \<noteq> 0xff
           then fifo_reset s2
           else s2\<lparr>ctrl := (ctrl s2)\<lparr>bytecount := bytecount (ctrl s2) + 1\<rparr>\<rparr>
      else
        let s1 = rx_in_map (\<lambda>b. b\<lparr>rx_status := STATUS_COMPLETE\<rparr>) s;
            s2 = s1\<lparr>ctrl := (ctrl s1)\<lparr>buffer_in_num := buffer_in_num (ctrl s1) XOR 1\<rparr>\<rparr>
        in fifo_reset s2)"

text \<open>\<^verbatim>\<open>case STATE_TX\<close>.\<close>

definition isr_tx :: "rfm12 \<Rightarrow> rfm12" where
  "isr_tx s =
     (if bytecount (ctrl s) < num_bytes (ctrl s) then
        let s1 = rfm12_data (tx_byte_cmd (rf_tx_buffer s) (unat (bytecount (ctrl s)))) s
        in s1\<lparr>ctrl := (ctrl s1)\<lparr>bytecount := bytecount (ctrl s1) + 1\<rparr>\<rparr>
      else
        let s1 = s\<lparr>ctrl := (ctrl s)\<lparr>txstate := STATUS_FREE\<rparr>\<rparr>;
            s2 = rfm12_data CMD_PWRMGT_RECEIVE s1;
            s3 = rfm12_data (CMD_TX 0xaa) s2
        in fifo_reset s3)"

text \<open>
  The body of \<^verbatim>\<open>if (status & (RFM12_STATUS_FFIT>>8))\<close>: one FIFO event. \<open>fifo\<close> is the byte
  the FIFO holds; only the two receive branches read it.
\<close>

definition isr_ffit :: "rfm12_config \<Rightarrow> byte \<Rightarrow> rfm12 \<Rightarrow> rfm12" where
  "isr_ffit cfg fifo s =
     (case rfm12_state (ctrl s) of
        STATE_RX_IDLE \<Rightarrow> isr_rx_idle fifo s
      | STATE_RX_ACTIVE \<Rightarrow> isr_rx_active cfg fifo s
      | STATE_TX \<Rightarrow> isr_tx s)"

text \<open>
  The handler with its \<^verbatim>\<open>do ... while (recheck_interrupt)\<close> loop. The hardware's answers are
  the input: each element is the interrupt status byte one pass of the loop reads, with the
  byte the FIFO holds then. The loop runs again after every pass that saw the FIFO bit and
  ends at the first status without it (or when the hardware has nothing more to report).
\<close>

fun rfm12_poll :: "rfm12_config \<Rightarrow> (byte \<times> byte) list \<Rightarrow> rfm12 \<Rightarrow> rfm12" where
  "rfm12_poll cfg [] s = s"
| "rfm12_poll cfg ((status, fifo) # hw) s =
     (if status AND ucast (drop_bit 8 (RFM12_STATUS_FFIT cfg)) \<noteq> 0
      then rfm12_poll cfg hw (isr_ffit cfg fifo s)
      else s)"

text \<open>A sequence of FIFO events, one per received byte.\<close>

fun rx_feed :: "rfm12_config \<Rightarrow> byte list \<Rightarrow> rfm12 \<Rightarrow> rfm12" where
  "rx_feed cfg [] s = s"
| "rx_feed cfg (b # bs) s = rx_feed cfg bs (isr_ffit cfg b s)"

subsection \<open>The scheduler\<close>

text \<open>
  \<^verbatim>\<open>rfm12_tick\<close>; \<open>status\<close> is the word \<^verbatim>\<open>rfm12_read(RFM12_CMD_STATUS)\<close> returns (read only
  when the state machine is idle). The assignment of \<^verbatim>\<open>CHANNEL_FREE_TIME\<close> to the
  \<^verbatim>\<open>uint8_t\<close> counter truncates.
\<close>

definition tick_arm :: "rfm12 \<Rightarrow> rfm12" where
  "tick_arm s =
     (let s1 = s\<lparr>ctrl := (ctrl s)\<lparr>num_bytes := tx_len (rf_tx_buffer s) + 6\<rparr>\<rparr>;
          s2 = s1\<lparr>ctrl := (ctrl s1)\<lparr>bytecount := 0\<rparr>\<rparr>;
          s3 = s2\<lparr>ctrl := (ctrl s2)\<lparr>rfm12_state := STATE_TX\<rparr>\<rparr>;
          s4 = rfm12_data (CMD_TX PREAMBLE) s3;
          s5 = rfm12_data (CMD_TX PREAMBLE) s4
      in rfm12_data CMD_PWRMGT_ET s5)"

definition rfm12_tick :: "rfm12_config \<Rightarrow> 16 word \<Rightarrow> rfm12 \<Rightarrow> rfm12" where
  "rfm12_tick cfg status s =
     (if rfm12_state (ctrl s) \<noteq> STATE_RX_IDLE then s
      else if status AND RFM12_STATUS_RSSI cfg \<noteq> 0
        then s\<lparr>channel_free_count := of_nat (CHANNEL_FREE_TIME cfg)\<rparr>
      else if channel_free_count s \<noteq> 0
        then s\<lparr>channel_free_count := channel_free_count s - 1\<rparr>
      else if txstate (ctrl s) = STATUS_OCCUPIED then tick_arm s
      else s)"

text \<open>Successive calls of \<^verbatim>\<open>rfm12_tick\<close>, one per status word, with no interrupt between.\<close>

fun ticks :: "rfm12_config \<Rightarrow> 16 word list \<Rightarrow> rfm12 \<Rightarrow> rfm12" where
  "ticks cfg [] s = s"
| "ticks cfg (st # sts) s = ticks cfg sts (rfm12_tick cfg st s)"

subsection \<open>Enqueueing and consuming\<close>

definition rfm12_start_tx :: "byte \<Rightarrow> byte \<Rightarrow> rfm12 \<Rightarrow> tx_retval \<times> rfm12" where
  "rfm12_start_tx type len s =
     (if txstate (ctrl s) \<noteq> STATUS_FREE then (RFM12_TX_OCCUPIED, s)
      else
        let s1 = s\<lparr>rf_tx_buffer := (rf_tx_buffer s)\<lparr>tx_len := len\<rparr>\<rparr>;
            s2 = s1\<lparr>rf_tx_buffer := (rf_tx_buffer s1)\<lparr>tx_type := type\<rparr>\<rparr>;
            s3 = s2\<lparr>rf_tx_buffer := (rf_tx_buffer s2)\<lparr>tx_checksum := len XOR type XOR 0xff\<rparr>\<rparr>;
            s4 = s3\<lparr>ctrl := (ctrl s3)\<lparr>txstate := STATUS_OCCUPIED\<rparr>\<rparr>
        in (RFM12_TX_ENQUEUED, s4))"

text \<open>
  \<^verbatim>\<open>rfm12_tx\<close>; \<open>data\<close> is the array the caller's pointer designates, at least \<open>len\<close> bytes
  long by the caller's contract.
\<close>

definition rfm12_tx :: "rfm12_config \<Rightarrow> byte \<Rightarrow> byte \<Rightarrow> byte list \<Rightarrow> rfm12 \<Rightarrow> tx_retval \<times> rfm12" where
  "rfm12_tx cfg len type data s =
     (if unat len > RFM12_TX_BUFFER_SIZE cfg then (RFM12_TX_ERROR, s)
      else if txstate (ctrl s) \<noteq> STATUS_FREE then (RFM12_TX_OCCUPIED, s)
      else
        rfm12_start_tx type len
          (s\<lparr>rf_tx_buffer := (rf_tx_buffer s)
                \<lparr>tx_buffer := memcpy (tx_buffer (rf_tx_buffer s)) data (unat len)\<rparr>\<rparr>))"

definition rfm12_rx_clear :: "rfm12 \<Rightarrow> rfm12" where
  "rfm12_rx_clear s =
     (let k = unat (buffer_out_num (ctrl s));
          s1 = s\<lparr>rf_rx_buffers := (rf_rx_buffers s)[k := (rf_rx_buffers s ! k)\<lparr>rx_status := STATUS_FREE\<rparr>]\<rparr>
      in s1\<lparr>ctrl := (ctrl s1)\<lparr>buffer_out_num := buffer_out_num (ctrl s1) XOR 1\<rparr>\<rparr>)"

subsection \<open>Running a transmission\<close>

text \<open>
  The chip raises one FIFO event for every byte it can take. \<open>tx_drain\<close> serves these events
  until the handler leaves \<open>STATE_TX\<close>; it always does, since every event either advances
  \<open>bytecount\<close> towards \<open>num_bytes\<close> or ends the transmission.
\<close>

function tx_drain :: "rfm12_config \<Rightarrow> rfm12 \<Rightarrow> rfm12" where
  "tx_drain cfg s =
     (if rfm12_state (ctrl s) = STATE_TX then tx_drain cfg (isr_ffit cfg 0 s) else s)"
  by pat_completeness auto

lemma unat_succ_byte: "a < (b::byte) \<Longrightarrow> unat (a + 1) = Suc (unat a)"
proof -
  assume "a < b"
  then have "unat a < unat b" by (simp add: word_less_nat_alt)
  moreover have "unat b < 256" using unsigned_less [of b] by simp
  ultimately have "unat a + 1 < 256" by arith
  then show ?thesis by (simp add: unat_word_ariths)
qed

lemma isr_tx_measure:
  "rfm12_state (ctrl s) = STATE_TX \<Longrightarrow>
   (if rfm12_state (ctrl (isr_ffit cfg 0 s)) = STATE_TX
      then Suc (unat (num_bytes (ctrl (isr_ffit cfg 0 s))) - unat (bytecount (ctrl (isr_ffit cfg 0 s))))
      else 0)
   < Suc (unat (num_bytes (ctrl s)) - unat (bytecount (ctrl s)))"
  by (auto simp: isr_ffit_def isr_tx_def rfm12_data_def fifo_reset_def Let_def
       unat_succ_byte word_less_nat_alt)

termination tx_drain
  by (relation "measure (\<lambda>(cfg, s). if rfm12_state (ctrl s) = STATE_TX
        then Suc (unat (num_bytes (ctrl s)) - unat (bytecount (ctrl s))) else 0)")
     (use isr_tx_measure in auto)

declare tx_drain.simps [simp del]

text \<open>
  The bytes written to the transmit register, in order: what the chip puts on the air.
  A byte that was read past the end of the transmit buffer is \<open>None\<close>.
\<close>

fun wire :: "rfm12_cmd list \<Rightarrow> byte option list" where
  "wire [] = []"
| "wire (CMD_TX b # cs) = Some b # wire cs"
| "wire (CMD_TX_PAST i # cs) = None # wire cs"
| "wire (c # cs) = wire cs"

subsection \<open>A packet on its way\<close>

text \<open>
  Sending one packet: \<^verbatim>\<open>rfm12_tx\<close> enqueues it, one call of \<^verbatim>\<open>rfm12_tick\<close> arms the
  transmission, and the handler serves the chip's FIFO events until it is done.
\<close>

definition transmit ::
  "rfm12_config \<Rightarrow> 16 word \<Rightarrow> byte \<Rightarrow> byte \<Rightarrow> byte list \<Rightarrow> rfm12 \<Rightarrow> rfm12" where
  "transmit cfg status len type data s =
     tx_drain cfg (rfm12_tick cfg status (snd (rfm12_tx cfg len type data s)))"

text \<open>The bytes written to the transmit register between a state and a later one.\<close>

definition on_air :: "rfm12 \<Rightarrow> rfm12 \<Rightarrow> byte option list" where
  "on_air s s' = drop (length (wire (bus s))) (wire (bus s'))"

text \<open>
  Modelled from the spec: the receiving chip is not part of the sources. Its synchroniser
  consumes the lead-in, here the two preamble bytes and the two synchronisation bytes
  ("matched by transceiver hardware"), and its FIFO hands the handler what follows.
\<close>

definition fifo_input :: "byte option list \<Rightarrow> byte option list" where
  "fifo_input air = drop 4 air"

text \<open>
  The bytes \<open>bs\<close> are what a receiver hears of \<open>air\<close>: byte for byte the same, with any
  value at all where the transmitter sent a byte from outside its buffer.
\<close>

definition heard :: "byte option list \<Rightarrow> byte list \<Rightarrow> bool" where
  "heard air bs = list_all2 (\<lambda>a b. a = None \<or> a = Some b) air bs"

text \<open>
  The receive slot that was the fill target in state \<open>r\<close>, read after the bytes \<open>frame\<close>
  have come in.
\<close>

definition delivered :: "rfm12_config \<Rightarrow> byte list \<Rightarrow> rfm12 \<Rightarrow> rf_rx_buffer_t" where
  "delivered cfg frame r = rf_rx_buffers (rx_feed cfg frame r) ! unat (buffer_in_num (ctrl r))"

subsection \<open>A small configuration and its start state\<close>

text \<open>
  A configuration with 4-byte payload buffers and a countdown of 3 ticks, and the state
  \<^verbatim>\<open>rfm12_init\<close> leaves on zero-initialised globals: the sync pattern stored, both buffer
  indices 0, the scheduler's counter at its initial 16.
\<close>

definition sample_config :: rfm12_config where
  "sample_config =
     \<lparr>RFM12_TX_BUFFER_SIZE = 4, RFM12_RX_BUFFER_SIZE = 4, CHANNEL_FREE_TIME = 3,
      RFM12_STATUS_RSSI = 0x0100, RFM12_STATUS_FFIT = 0x8000,
      SYNC_MSB = 0x2D, SYNC_LSB = 0xD4\<rparr>"

definition power_on :: "rfm12_config \<Rightarrow> rfm12" where
  "power_on cfg =
     \<lparr>ctrl = \<lparr>rfm12_state = STATE_RX_IDLE, txstate = STATUS_FREE, num_bytes = 0,
              bytecount = 0, buffer_in_num = 0, buffer_out_num = 0\<rparr>,
      rf_tx_buffer = \<lparr>tx_sync = [SYNC_MSB cfg, SYNC_LSB cfg], tx_len = 0, tx_type = 0,
                      tx_checksum = 0, tx_buffer = replicate (RFM12_TX_BUFFER_SIZE cfg) 0\<rparr>,
      rf_rx_buffers =
        replicate 2 \<lparr>rx_status = STATUS_FREE, rx_len = 0, rx_type = 0, rx_checksum = 0,
                     rx_buffer = replicate (RFM12_RX_BUFFER_SIZE cfg) 0\<rparr>,
      checksum = 0, channel_free_count = 16, bus = [],
      overrun = False\<rparr>"

text \<open>
  Three variations: a countdown that does not fit a byte, buffers of 250 bytes, and receive
  slots smaller than the transmit buffer.
\<close>

definition slow_config :: rfm12_config where
  "slow_config = sample_config\<lparr>CHANNEL_FREE_TIME := 300\<rparr>"

definition large_config :: rfm12_config where
  "large_config = sample_config\<lparr>RFM12_TX_BUFFER_SIZE := 250, RFM12_RX_BUFFER_SIZE := 250\<rparr>"

definition narrow_rx_config :: rfm12_config where
  "narrow_rx_config = sample_config\<lparr>RFM12_RX_BUFFER_SIZE := 2\<rparr>"

text \<open>The start state with a 2-byte packet of type 7 enqueued.\<close>

definition queued :: "rfm12_config \<Rightarrow> rfm12" where
  "queued cfg = snd (rfm12_start_tx 7 2 (power_on cfg))"

text \<open>The start state after sixteen ticks on a silent channel: the countdown has run out.\<close>

definition channel_clear :: "rfm12_config \<Rightarrow> rfm12" where
  "channel_clear cfg = ticks cfg (replicate 16 0) (power_on cfg)"

text \<open>
  A packet is queued on a silent channel, then a packet of two bytes comes in; the carrier
  is up while it does, and two ticks fall into the reception.
\<close>

definition carrier_during_reception :: "rfm12_config \<Rightarrow> rfm12" where
  "carrier_during_reception cfg =
     rx_feed cfg [7, 0xfa, 1, 2, 0]
       (ticks cfg [0x0100, 0x0100]
          (rx_feed cfg [2] (snd (rfm12_start_tx 7 2 (channel_clear cfg)))))"

text \<open>
  The start state after two empty packets (length 0, type 0, checksum \<open>0xff\<close>, one closing
  byte each) have come in: both receive slots are complete and unread.
\<close>

definition both_complete :: "rfm12_config \<Rightarrow> rfm12" where
  "both_complete cfg = rx_feed cfg [0, 0, 0xff, 0, 0, 0, 0xff, 0] (power_on cfg)"

text \<open>
  The start state after the first seven bytes of a packet that advertises 10 payload bytes,
  more than a slot holds: header and four payload bytes are in, \<^verbatim>\<open>bytecount\<close> is 7.
\<close>

definition rx_past_capacity :: "rfm12_config \<Rightarrow> rfm12" where
  "rx_past_capacity cfg = rx_feed cfg [10, 7, 0xf2, 1, 2, 3, 4] (power_on cfg)"

text \<open>
  The fields the handler works on: \<^verbatim>\<open>ctrl.rfm12_state\<close>, \<^verbatim>\<open>ctrl.bytecount\<close>,
  \<^verbatim>\<open>ctrl.num_bytes\<close> and \<^verbatim>\<open>ctrl.buffer_in_num\<close>.
\<close>

definition isr_owned :: "rfm12 \<Rightarrow> rfm12_state_t \<times> byte \<times> byte \<times> byte" where
  "isr_owned s =
     (rfm12_state (ctrl s), bytecount (ctrl s), num_bytes (ctrl s), buffer_in_num (ctrl s))"

text \<open>The condition under which \<^verbatim>\<open>rfm12_tick\<close> reaches its transmit-arming block.\<close>

definition tick_arms :: "rfm12_config \<Rightarrow> 16 word \<Rightarrow> rfm12 \<Rightarrow> bool" where
  "tick_arms cfg status s =
     (rfm12_state (ctrl s) = STATE_RX_IDLE \<and> status AND RFM12_STATUS_RSSI cfg = 0 \<and>
      channel_free_count s = 0 \<and> txstate (ctrl s) = STATUS_OCCUPIED)"

section \<open>Enqueueing\<close>

text \<open>
  C7. A call of \<^verbatim>\<open>rfm12_tx\<close> with a length greater than the capacity of the transmit buffer
  (so also with capacity + 1) returns \<^verbatim>\<open>RFM12_TX_ERROR\<close> and changes nothing at all: not the
  transmit buffer, not \<^verbatim>\<open>ctrl.txstate\<close>, whatever the state of the driver is.
\<close>

theorem rfm12_tx_too_large:
  assumes "RFM12_TX_BUFFER_SIZE cfg < unat len"
  shows "rfm12_tx cfg len type data s = (RFM12_TX_ERROR, s)"
  using assms by (simp add: rfm12_tx_def)

theorem rfm12_tx_too_large_witness:
  "RFM12_TX_BUFFER_SIZE sample_config < unat (5 :: byte) \<and>
   rfm12_tx sample_config 5 7 [1, 2, 3, 4, 5] (power_on sample_config)
     = (RFM12_TX_ERROR, power_on sample_config)"
  using rfm12_tx_too_large [of sample_config 5 7 "[1, 2, 3, 4, 5]" "power_on sample_config"]
  by (simp add: sample_config_def)

text \<open>
  C10. \<^verbatim>\<open>rfm12_start_tx\<close> validates no length: for every length byte, if \<^verbatim>\<open>ctrl.txstate\<close> is
  free it writes length, type and the checksum \<open>length XOR type XOR 0xff\<close> into the header
  of the transmit buffer, marks the buffer occupied and returns \<^verbatim>\<open>RFM12_TX_ENQUEUED\<close>. A length
  above the capacity is refused only by \<^verbatim>\<open>rfm12_tx\<close>, which returns \<^verbatim>\<open>RFM12_TX_ERROR\<close> for it
  in the same state.
\<close>

theorem rfm12_start_tx_unchecked:
  assumes "txstate (ctrl s) = STATUS_FREE"
  shows "rfm12_start_tx type len s =
           (RFM12_TX_ENQUEUED,
            s\<lparr>rf_tx_buffer := (rf_tx_buffer s)
                 \<lparr>tx_len := len, tx_type := type, tx_checksum := len XOR type XOR 0xff\<rparr>,
              ctrl := (ctrl s)\<lparr>txstate := STATUS_OCCUPIED\<rparr>\<rparr>) \<and>
         (RFM12_TX_BUFFER_SIZE cfg < unat len \<longrightarrow>
            rfm12_tx cfg len type data s = (RFM12_TX_ERROR, s))"
  using assms by (simp add: rfm12_start_tx_def rfm12_tx_def)

theorem rfm12_start_tx_unchecked_witness:
  "txstate (ctrl (power_on sample_config)) = STATUS_FREE \<and>
   RFM12_TX_BUFFER_SIZE sample_config < unat (255 :: byte) \<and>
   fst (rfm12_start_tx 7 255 (power_on sample_config)) = RFM12_TX_ENQUEUED \<and>
   tx_len (rf_tx_buffer (snd (rfm12_start_tx 7 255 (power_on sample_config)))) = 255 \<and>
   tx_type (rf_tx_buffer (snd (rfm12_start_tx 7 255 (power_on sample_config)))) = 7 \<and>
   tx_checksum (rf_tx_buffer (snd (rfm12_start_tx 7 255 (power_on sample_config)))) = 7 \<and>
   txstate (ctrl (snd (rfm12_start_tx 7 255 (power_on sample_config)))) = STATUS_OCCUPIED \<and>
   fst (rfm12_tx sample_config 255 7 [] (power_on sample_config)) = RFM12_TX_ERROR"
  using rfm12_start_tx_unchecked [of "power_on sample_config" 7 255 sample_config "[]"]
  by (simp add: power_on_def sample_config_def)

text \<open>
  C6, as amended. While \<^verbatim>\<open>ctrl.txstate\<close> is occupied, \<^verbatim>\<open>rfm12_start_tx\<close> returns
  \<^verbatim>\<open>RFM12_TX_OCCUPIED\<close> for every call; \<^verbatim>\<open>rfm12_tx\<close> returns \<^verbatim>\<open>RFM12_TX_OCCUPIED\<close> when the
  length fits the transmit buffer and \<^verbatim>\<open>RFM12_TX_ERROR\<close> when it does not, because it tests
  the length first. In each case the whole state is left as it was: the queued packet's
  length, type, checksum and payload, and \<^verbatim>\<open>ctrl.txstate\<close>.
\<close>

theorem enqueue_while_occupied:
  assumes "txstate (ctrl s) = STATUS_OCCUPIED"
  shows "rfm12_start_tx type len s = (RFM12_TX_OCCUPIED, s) \<and>
         rfm12_tx cfg len type data s =
           (if RFM12_TX_BUFFER_SIZE cfg < unat len then RFM12_TX_ERROR else RFM12_TX_OCCUPIED, s)"
  using assms by (simp add: rfm12_start_tx_def rfm12_tx_def)

theorem enqueue_while_occupied_witness:
  "txstate (ctrl (queued sample_config)) = STATUS_OCCUPIED \<and>
   rfm12_start_tx 9 1 (queued sample_config) = (RFM12_TX_OCCUPIED, queued sample_config) \<and>
   rfm12_tx sample_config 1 9 [5] (queued sample_config)
     = (RFM12_TX_OCCUPIED, queued sample_config)"
  using enqueue_while_occupied [of "queued sample_config" 9 1 sample_config "[5]"]
  by (simp add: queued_def power_on_def sample_config_def rfm12_start_tx_def)

text \<open>
  Not every call on an occupied buffer returns \<^verbatim>\<open>RFM12_TX_OCCUPIED\<close>: with a packet queued
  and a 4-byte transmit buffer, \<^verbatim>\<open>rfm12_tx\<close> called with length 5 returns \<^verbatim>\<open>RFM12_TX_ERROR\<close>.
\<close>

theorem enqueue_while_occupied_counterexample:
  "txstate (ctrl (queued sample_config)) = STATUS_OCCUPIED \<and>
   fst (rfm12_tx sample_config 5 9 [1, 2, 3, 4, 5] (queued sample_config)) = RFM12_TX_ERROR \<and>
   fst (rfm12_tx sample_config 5 9 [1, 2, 3, 4, 5] (queued sample_config)) \<noteq> RFM12_TX_OCCUPIED"
  by (simp add: queued_def power_on_def sample_config_def rfm12_start_tx_def rfm12_tx_def)

section \<open>Who writes the handler's fields\<close>

text \<open>
  C9, as amended. \<^verbatim>\<open>rfm12_start_tx\<close>, \<^verbatim>\<open>rfm12_tx\<close> and \<^verbatim>\<open>rfm12_rx_clear\<close> never change
  \<^verbatim>\<open>rfm12_state\<close>, \<^verbatim>\<open>bytecount\<close>, \<^verbatim>\<open>num_bytes\<close> or \<^verbatim>\<open>buffer_in_num\<close>. \<^verbatim>\<open>rfm12_tick\<close> changes
  them in one case only, its transmit-arming block (idle, no carrier, countdown at zero, a
  packet queued): there it sets \<^verbatim>\<open>rfm12_state\<close> to \<^verbatim>\<open>STATE_TX\<close>, \<^verbatim>\<open>bytecount\<close> to 0 and
  \<^verbatim>\<open>num_bytes\<close> to the queued length plus 6, and it never changes \<^verbatim>\<open>buffer_in_num\<close>. No
  mainline function releases \<^verbatim>\<open>txstate\<close>: the enqueue functions only take it from free to
  occupied, \<^verbatim>\<open>rfm12_rx_clear\<close> and \<^verbatim>\<open>rfm12_tick\<close> leave it as it is.
\<close>

theorem mainline_mutations:
  "isr_owned (snd (rfm12_start_tx type len s)) = isr_owned s \<and>
   isr_owned (snd (rfm12_tx cfg len type data s)) = isr_owned s \<and>
   isr_owned (rfm12_rx_clear s) = isr_owned s \<and>
   isr_owned (rfm12_tick cfg status s) =
     (if tick_arms cfg status s
      then (STATE_TX, 0, tx_len (rf_tx_buffer s) + 6, buffer_in_num (ctrl s))
      else isr_owned s) \<and>
   txstate (ctrl (snd (rfm12_start_tx type len s))) =
     (if txstate (ctrl s) = STATUS_FREE then STATUS_OCCUPIED else txstate (ctrl s)) \<and>
   txstate (ctrl (snd (rfm12_tx cfg len type data s))) =
     (if txstate (ctrl s) = STATUS_FREE \<and> unat len \<le> RFM12_TX_BUFFER_SIZE cfg
      then STATUS_OCCUPIED else txstate (ctrl s)) \<and>
   txstate (ctrl (rfm12_rx_clear s)) = txstate (ctrl s) \<and>
   txstate (ctrl (rfm12_tick cfg status s)) = txstate (ctrl s)"
  by (simp add: isr_owned_def tick_arms_def rfm12_start_tx_def rfm12_tx_def rfm12_rx_clear_def
        rfm12_tick_def tick_arm_def rfm12_data_def Let_def)

text \<open>
  The handler is not the only writer of \<^verbatim>\<open>rfm12_state\<close>: sixteen ticks on a clear channel
  after power-on leave the state machine idle with the countdown at zero, and the next
  tick, finding a packet queued, sets \<^verbatim>\<open>rfm12_state\<close> to \<^verbatim>\<open>STATE_TX\<close>.
\<close>

theorem tick_mutates_state_counterexample:
  "rfm12_state (ctrl (ticks sample_config [0,0,0,0,0,0,0,0,0,0,0,0,0,0,0,0] (queued sample_config)))
     = STATE_RX_IDLE \<and>
   rfm12_state (ctrl (rfm12_tick sample_config 0
       (ticks sample_config [0,0,0,0,0,0,0,0,0,0,0,0,0,0,0,0] (queued sample_config))))
     = STATE_TX"
  by code_simp

section \<open>Reception into a slot that is not free\<close>

lemma isr_ffit_idle_busy_slot:
  assumes "rfm12_state (ctrl s) = STATE_RX_IDLE" and "rx_status (rx_in s) \<noteq> STATUS_FREE"
  shows "rf_rx_buffers (isr_ffit cfg b s) = rf_rx_buffers s"
    and "rfm12_state (ctrl (isr_ffit cfg b s)) = STATE_RX_IDLE"
    and "buffer_in_num (ctrl (isr_ffit cfg b s)) = buffer_in_num (ctrl s)"
    and "overrun (isr_ffit cfg b s) = overrun s"
    and "rx_in (isr_ffit cfg b s) = rx_in s"
  using assms
  by (simp_all add: isr_ffit_def isr_rx_idle_def rx_in_def fifo_reset_def rfm12_data_def Let_def)

text \<open>
  C4. When the state machine is idle and the slot \<^verbatim>\<open>rf_rx_buffers[ctrl.buffer_in_num]\<close> is not
  free, the length byte \<open>b\<close> of a new packet, and any bytes \<open>bs\<close> that come after it, change
  neither receive slot; the handler writes nothing outside them either, \<^verbatim>\<open>buffer_in_num\<close>
  stays, and \<^verbatim>\<open>rfm12_state\<close> is \<^verbatim>\<open>STATE_RX_IDLE\<close> after every one of these bytes.
\<close>

theorem rx_busy_slot_discards:
  assumes "rfm12_state (ctrl s) = STATE_RX_IDLE"
    and "wellformed cfg s"
    and "rx_status (rx_in s) \<noteq> STATUS_FREE"
  shows "rf_rx_buffers (rx_feed cfg (b # bs) s) = rf_rx_buffers s \<and>
         rfm12_state (ctrl (isr_ffit cfg b s)) = STATE_RX_IDLE \<and>
         rfm12_state (ctrl (rx_feed cfg (b # bs) s)) = STATE_RX_IDLE \<and>
         buffer_in_num (ctrl (rx_feed cfg (b # bs) s)) = buffer_in_num (ctrl s) \<and>
         overrun (rx_feed cfg (b # bs) s) = overrun s"
proof -
  have "rf_rx_buffers (rx_feed cfg xs s) = rf_rx_buffers s \<and>
        rfm12_state (ctrl (rx_feed cfg xs s)) = STATE_RX_IDLE \<and>
        buffer_in_num (ctrl (rx_feed cfg xs s)) = buffer_in_num (ctrl s) \<and>
        overrun (rx_feed cfg xs s) = overrun s" for xs
    using assms(1,3)
  proof (induction xs arbitrary: s)
    case Nil
    then show ?case by simp
  next
    case (Cons x xs)
    let ?s = "isr_ffit cfg x s"
    have "rfm12_state (ctrl ?s) = STATE_RX_IDLE" and "rx_status (rx_in ?s) \<noteq> STATUS_FREE"
      using Cons.prems by (simp_all add: isr_ffit_idle_busy_slot)
    from Cons.IH [OF this] show ?case
      using Cons.prems by (simp add: isr_ffit_idle_busy_slot)
  qed
  from this [of "b # bs"] show ?thesis
    using assms(1,3) by (simp add: isr_ffit_idle_busy_slot)
qed

theorem rx_busy_slot_discards_witness:
  "rfm12_state (ctrl (both_complete sample_config)) = STATE_RX_IDLE \<and>
   rx_status (rx_in (both_complete sample_config)) = STATUS_COMPLETE \<and>
   rf_rx_buffers (rx_feed sample_config [2, 7, 0xfa, 1, 2, 0] (both_complete sample_config))
     = rf_rx_buffers (both_complete sample_config) \<and>
   rfm12_state (ctrl (rx_feed sample_config [2, 7, 0xfa, 1, 2, 0] (both_complete sample_config)))
     = STATE_RX_IDLE"
proof -
  have 1: "rfm12_state (ctrl (both_complete sample_config)) = STATE_RX_IDLE" by code_simp
  have 2: "wellformed sample_config (both_complete sample_config)" by code_simp
  have 3: "rx_status (rx_in (both_complete sample_config)) = STATUS_COMPLETE" by code_simp
  then have 4: "rx_status (rx_in (both_complete sample_config)) \<noteq> STATUS_FREE" by simp
  from rx_busy_slot_discards [OF 1 2 4, of 2 "[7, 0xfa, 1, 2, 0]"] 1 3
  show ?thesis by simp
qed

section \<open>The collision-avoidance scheduler\<close>

lemma ticks_append: "ticks cfg (xs @ ys) s = ticks cfg ys (ticks cfg xs s)"
  by (induction xs arbitrary: s) simp_all

lemma ticks_not_idle: "rfm12_state (ctrl s) \<noteq> STATE_RX_IDLE \<Longrightarrow> ticks cfg sts s = s"
  by (induction sts) (simp_all add: rfm12_tick_def)

lemma ticks_carrier:
  assumes "\<forall>st \<in> set sts. st AND RFM12_STATUS_RSSI cfg \<noteq> 0"
  shows "ticks cfg sts s =
           (if rfm12_state (ctrl s) = STATE_RX_IDLE \<and> sts \<noteq> []
            then s\<lparr>channel_free_count := of_nat (CHANNEL_FREE_TIME cfg)\<rparr> else s)"
  using assms
  by (induction sts arbitrary: s) (auto simp: rfm12_tick_def)

lemma ticks_wait:
  assumes "\<forall>st \<in> set sts. st AND RFM12_STATUS_RSSI cfg = 0"
    and "rfm12_state (ctrl s) = STATE_RX_IDLE"
    and "length sts \<le> unat (channel_free_count s)"
  shows "ticks cfg sts s =
           s\<lparr>channel_free_count := channel_free_count s - of_nat (length sts)\<rparr>"
  using assms
proof (induction sts arbitrary: s)
  case Nil
  then show ?case by simp
next
  case (Cons st sts)
  let ?s = "s\<lparr>channel_free_count := channel_free_count s - 1\<rparr>"
  have pos: "unat (channel_free_count s) \<noteq> 0"
    using Cons.prems(3) by simp
  then have nz: "channel_free_count s \<noteq> 0"
    by (simp add: unat_eq_0)
  have step: "rfm12_tick cfg st s = ?s"
    using nz Cons.prems by (simp add: rfm12_tick_def)
  have dec: "unat (channel_free_count ?s) = unat (channel_free_count s) - 1"
    using nz by (simp add: unat_minus_one)
  have "ticks cfg sts ?s =
          ?s\<lparr>channel_free_count := channel_free_count ?s - of_nat (length sts)\<rparr>"
    using Cons.prems dec by (intro Cons.IH) simp_all
  then show ?case
    using step by (simp add: algebra_simps)
qed

lemma ticks_arm:
  assumes "\<forall>st \<in> set sts. st AND RFM12_STATUS_RSSI cfg = 0"
    and "rfm12_state (ctrl s) = STATE_RX_IDLE"
    and "txstate (ctrl s) = STATUS_OCCUPIED"
    and "unat (channel_free_count s) < length sts"
  shows "ticks cfg sts s = tick_arm (s\<lparr>channel_free_count := 0\<rparr>)"
proof -
  let ?n = "unat (channel_free_count s)"
  let ?s0 = "s\<lparr>channel_free_count := 0\<rparr>"
  from assms(4) obtain st rest where split: "drop ?n sts = st # rest"
    by (cases "drop ?n sts") simp_all
  have sts: "sts = take ?n sts @ st # rest"
    using split by (metis append_take_drop_id)
  have clear_take: "\<forall>x \<in> set (take ?n sts). x AND RFM12_STATUS_RSSI cfg = 0"
    using assms(1) by (meson in_set_takeD)
  have "st \<in> set sts"
    using sts by (metis in_set_conv_decomp)
  then have clear_st: "st AND RFM12_STATUS_RSSI cfg = 0"
    using assms(1) by blast
  have "ticks cfg (take ?n sts) s =
          s\<lparr>channel_free_count := channel_free_count s - of_nat (length (take ?n sts))\<rparr>"
    using clear_take assms(2) by (intro ticks_wait) simp_all
  moreover have "length (take ?n sts) = ?n"
    using assms(4) by simp
  ultimately have waited: "ticks cfg (take ?n sts) s = ?s0"
    by simp
  have armed: "rfm12_tick cfg st ?s0 = tick_arm ?s0"
    using assms(2,3) clear_st by (simp add: rfm12_tick_def)
  have "rfm12_state (ctrl (tick_arm ?s0)) \<noteq> STATE_RX_IDLE"
    by (simp add: tick_arm_def rfm12_data_def Let_def)
  then have "ticks cfg rest (tick_arm ?s0) = tick_arm ?s0"
    by (rule ticks_not_idle)
  then have "ticks cfg (take ?n sts @ st # rest) s = tick_arm ?s0"
    by (simp add: ticks_append waited armed)
  then show ?thesis
    using sts by simp
qed

text \<open>
  C5, as amended. While every tick reads the carrier bit set, no number of ticks changes
  \<^verbatim>\<open>ctrl\<close> (so \<^verbatim>\<open>rfm12_state\<close> never becomes \<^verbatim>\<open>STATE_TX\<close>), sends a command or touches a
  buffer, whatever state \<open>s0\<close> the ticks start in. When the state machine is idle with a
  packet queued and the carrier, seen by at least one tick in this idle state, then reads
  clear on every tick (no interrupt in between), the first \<^verbatim>\<open>CHANNEL_FREE_TIME mod 256\<close>
  clear ticks only count down, and the clear tick after them starts the transmission: it
  sets \<^verbatim>\<open>num_bytes\<close> to the queued length plus 6, \<^verbatim>\<open>bytecount\<close> to 0 and \<^verbatim>\<open>rfm12_state\<close> to
  \<^verbatim>\<open>STATE_TX\<close>, writes the two preamble bytes \<open>0xaa\<close> and switches the transmitter on; later
  ticks change nothing. The countdown is a byte: the wait is the configured
  \<^verbatim>\<open>CHANNEL_FREE_TIME\<close> when that is at most 255.
\<close>

theorem tick_collision_scheduler:
  assumes "\<forall>st \<in> set carrier. st AND RFM12_STATUS_RSSI cfg \<noteq> 0"
    and "\<forall>st \<in> set clear. st AND RFM12_STATUS_RSSI cfg = 0"
    and "carrier \<noteq> []"
    and "rfm12_state (ctrl s) = STATE_RX_IDLE"
    and "txstate (ctrl s) = STATUS_OCCUPIED"
  shows "ctrl (ticks cfg carrier s0) = ctrl s0 \<and>
         bus (ticks cfg carrier s0) = bus s0 \<and>
         rf_tx_buffer (ticks cfg carrier s0) = rf_tx_buffer s0 \<and>
         rf_rx_buffers (ticks cfg carrier s0) = rf_rx_buffers s0 \<and>
         ticks cfg (carrier @ clear) s =
           (if CHANNEL_FREE_TIME cfg mod 256 < length clear
            then s\<lparr>ctrl := (ctrl s)\<lparr>num_bytes := tx_len (rf_tx_buffer s) + 6, bytecount := 0,
                                     rfm12_state := STATE_TX\<rparr>,
                   channel_free_count := 0,
                   bus := bus s @ [CMD_TX 0xaa, CMD_TX 0xaa, CMD_PWRMGT_ET]\<rparr>
            else s\<lparr>channel_free_count :=
                     of_nat (CHANNEL_FREE_TIME cfg mod 256 - length clear)\<rparr>)"
proof -
  have 1: "ctrl (ticks cfg carrier s0) = ctrl s0 \<and> bus (ticks cfg carrier s0) = bus s0 \<and>
           rf_tx_buffer (ticks cfg carrier s0) = rf_tx_buffer s0 \<and>
           rf_rx_buffers (ticks cfg carrier s0) = rf_rx_buffers s0"
    using assms(1) by (simp add: ticks_carrier)
  let ?n = "CHANNEL_FREE_TIME cfg mod 256"
  let ?s = "s\<lparr>channel_free_count := of_nat (CHANNEL_FREE_TIME cfg)\<rparr>"
  have seen: "ticks cfg carrier s = ?s"
    using assms(1,3,4) by (simp add: ticks_carrier)
  have count: "unat (channel_free_count ?s) = ?n"
    by (simp add: unat_of_nat)
  have idle: "rfm12_state (ctrl ?s) = STATE_RX_IDLE" and occ: "txstate (ctrl ?s) = STATUS_OCCUPIED"
    using assms(4,5) by simp_all
  show ?thesis
  proof (cases "?n < length clear")
    case True
    then have "unat (channel_free_count ?s) < length clear"
      using count by simp
    from ticks_arm [OF assms(2) idle occ this]
    have "ticks cfg clear ?s = tick_arm (?s\<lparr>channel_free_count := 0\<rparr>)" .
    then show ?thesis
      using 1 True seen
      by (simp add: ticks_append tick_arm_def rfm12_data_def PREAMBLE_def Let_def)
  next
    case False
    then have le: "length clear \<le> unat (channel_free_count ?s)"
      using count by simp
    have "of_nat (CHANNEL_FREE_TIME cfg) - of_nat (length clear) =
          (of_nat (?n - length clear) :: byte)"
    proof -
      have "(of_nat (CHANNEL_FREE_TIME cfg) :: byte) = of_nat ?n"
        by (simp add: word_unat_eq_iff unat_of_nat)
      moreover have "length clear \<le> ?n"
        using False by simp
      ultimately show ?thesis
        by (simp add: of_nat_diff)
    qed
    moreover from ticks_wait [OF assms(2) idle le]
    have "ticks cfg clear ?s =
        ?s\<lparr>channel_free_count := channel_free_count ?s - of_nat (length clear)\<rparr>" .
    ultimately show ?thesis
      using 1 False seen by (simp add: ticks_append)
  qed
qed

theorem tick_collision_scheduler_witness:
  "rfm12_state (ctrl (ticks sample_config ([0x0100, 0x0100] @ [0, 0, 0]) (queued sample_config)))
     = STATE_RX_IDLE \<and>
   bus (ticks sample_config ([0x0100, 0x0100] @ [0, 0, 0]) (queued sample_config)) = [] \<and>
   rfm12_state (ctrl (ticks sample_config ([0x0100, 0x0100] @ [0, 0, 0, 0]) (queued sample_config)))
     = STATE_TX \<and>
   num_bytes (ctrl (ticks sample_config ([0x0100, 0x0100] @ [0, 0, 0, 0]) (queued sample_config)))
     = 8 \<and>
   bus (ticks sample_config ([0x0100, 0x0100] @ [0, 0, 0, 0]) (queued sample_config))
     = [CMD_TX 0xaa, CMD_TX 0xaa, CMD_PWRMGT_ET]"
proof -
  have 1: "\<forall>st \<in> set [0x0100, 0x0100]. st AND RFM12_STATUS_RSSI sample_config \<noteq> 0"
    by (simp add: sample_config_def)
  have 2: "\<forall>st \<in> set [0, 0, 0]. st AND RFM12_STATUS_RSSI sample_config = 0"
    and 3: "\<forall>st \<in> set [0, 0, 0, 0]. st AND RFM12_STATUS_RSSI sample_config = 0"
    by simp_all
  have 4: "rfm12_state (ctrl (queued sample_config)) = STATE_RX_IDLE"
    and 5: "txstate (ctrl (queued sample_config)) = STATUS_OCCUPIED"
    and 6: "bus (queued sample_config) = []"
    and 7: "tx_len (rf_tx_buffer (queued sample_config)) = 2"
    by code_simp+
  have 8: "CHANNEL_FREE_TIME sample_config mod 256 = 3"
    by (simp add: sample_config_def)
  from tick_collision_scheduler [OF 1 2 _ 4 5, of "queued sample_config"]
    tick_collision_scheduler [OF 1 3 _ 4 5, of "queued sample_config"]
  show ?thesis
    unfolding 8 by (simp add: 4 6 7)
qed

text \<open>
  Two cases outside these conditions. Ticks that fall into a reception return at once and
  do not restart the countdown: with the countdown at zero, a carrier that was up during a
  reception is followed by a transmission on the very first clear tick, not after
  \<^verbatim>\<open>CHANNEL_FREE_TIME\<close> = 3 of them. And with \<^verbatim>\<open>CHANNEL_FREE_TIME\<close> = 300 the byte counter
  holds 44: the transmission starts on the 45th clear tick.
\<close>

theorem tick_collision_scheduler_counterexample:
  "CHANNEL_FREE_TIME sample_config = 3 \<and>
   rfm12_state (ctrl (rx_feed sample_config [2]
      (snd (rfm12_start_tx 7 2 (channel_clear sample_config))))) = STATE_RX_ACTIVE \<and>
   rfm12_state (ctrl (carrier_during_reception sample_config)) = STATE_RX_IDLE \<and>
   txstate (ctrl (carrier_during_reception sample_config)) = STATUS_OCCUPIED \<and>
   rfm12_state (ctrl (rfm12_tick sample_config 0 (carrier_during_reception sample_config)))
     = STATE_TX \<and>
   CHANNEL_FREE_TIME slow_config = 300 \<and>
   rfm12_state (ctrl (queued slow_config)) = STATE_RX_IDLE \<and>
   txstate (ctrl (queued slow_config)) = STATUS_OCCUPIED \<and>
   rfm12_state (ctrl (ticks slow_config (0x0100 # replicate 44 0) (queued slow_config)))
     = STATE_RX_IDLE \<and>
   rfm12_state (ctrl (ticks slow_config (0x0100 # replicate 45 0) (queued slow_config)))
     = STATE_TX"
  by code_simp

section \<open>Facts about the receive path\<close>

text \<open>
  One run of the handler that finds the FIFO bit set on every pass serves the bytes as
  \<open>rx_feed\<close> does, one event each; a status without the bit ends the run.
\<close>

lemma rfm12_poll_ready:
  assumes "\<forall>(status, fifo) \<in> set hw. status AND ucast (drop_bit 8 (RFM12_STATUS_FFIT cfg)) \<noteq> 0"
  shows "rfm12_poll cfg hw s = rx_feed cfg (map snd hw) s"
  using assms by (induction hw arbitrary: s) auto

lemma index_cases: "unat (k :: byte) < 2 \<Longrightarrow> k = 0 \<or> k = 1"
proof -
  assume "unat k < 2"
  then have "unat k = 0 \<or> unat k = 1" by arith
  then show ?thesis by (auto simp: word_unat_eq_iff)
qed

lemma wellformed_slot:
  assumes "wellformed cfg s"
  shows "unat (buffer_in_num (ctrl s)) < length (rf_rx_buffers s)"
    and "length (rx_buffer (rx_in s)) = RFM12_RX_BUFFER_SIZE cfg"
proof -
  show "unat (buffer_in_num (ctrl s)) < length (rf_rx_buffers s)"
    using assms by (simp add: wellformed_def)
  have "buffer_in_num (ctrl s) = 0 \<or> buffer_in_num (ctrl s) = 1"
    using assms by (intro index_cases) (simp add: wellformed_def)
  then show "length (rx_buffer (rx_in s)) = RFM12_RX_BUFFER_SIZE cfg"
    using assms by (auto simp: wellformed_def rx_in_def)
qed

lemma wellformed_stepI:
  assumes "wellformed cfg s"
    and "rf_tx_buffer s' = rf_tx_buffer s"
    and "rf_rx_buffers s' = (rf_rx_buffers s)[k := b]"
    and "length (rx_buffer b) = RFM12_RX_BUFFER_SIZE cfg"
    and "unat (buffer_in_num (ctrl s')) < 2"
    and "buffer_out_num (ctrl s') = buffer_out_num (ctrl s)"
  shows "wellformed cfg s'"
  using assms by (cases k; cases "k - 1") (auto simp: wellformed_def nth_list_update)

lemma wellformed_eqI:
  "wellformed cfg s \<Longrightarrow> rf_tx_buffer s' = rf_tx_buffer s \<Longrightarrow>
   rf_rx_buffers s' = rf_rx_buffers s \<Longrightarrow>
   buffer_in_num (ctrl s') = buffer_in_num (ctrl s) \<Longrightarrow>
   buffer_out_num (ctrl s') = buffer_out_num (ctrl s) \<Longrightarrow>
   wellformed cfg s'"
  by (simp add: wellformed_def)

lemma rx_struct_store_in_bound:
  assumes "i < length (rx_buffer b) + 3"
  shows "\<exists>b'. rx_struct_store i d b = Some b' \<and> length (rx_buffer b') = length (rx_buffer b) \<and>
           rx_status b' = rx_status b"
  using assms by (auto simp: rx_struct_store_def)

text \<open>The handler's steps, field by field.\<close>

lemma isr_idle_free:
  assumes "rfm12_state (ctrl s) = STATE_RX_IDLE" and "rx_status (rx_in s) = STATUS_FREE"
  shows "ctrl (isr_ffit cfg d s) =
           (ctrl s)\<lparr>bytecount := 1, num_bytes := d + PACKET_OVERHEAD,
                     rfm12_state := STATE_RX_ACTIVE\<rparr>"
    and "checksum (isr_ffit cfg d s) = d"
    and "rf_rx_buffers (isr_ffit cfg d s) =
           (rf_rx_buffers s)[unat (buffer_in_num (ctrl s)) := (rx_in s)\<lparr>rx_len := d\<rparr>]"
    and "rf_tx_buffer (isr_ffit cfg d s) = rf_tx_buffer s"
    and "overrun (isr_ffit cfg d s) = overrun s"
    and "bus (isr_ffit cfg d s) = bus s"
  using assms
  by (simp_all add: isr_ffit_def isr_rx_idle_def rx_in_map_def rx_in_def Let_def)

lemma isr_active_done:
  assumes "rfm12_state (ctrl s) = STATE_RX_ACTIVE"
    and "\<not> bytecount (ctrl s) < num_bytes (ctrl s)"
  shows "ctrl (isr_ffit cfg d s) =
           (ctrl s)\<lparr>buffer_in_num := buffer_in_num (ctrl s) XOR 1,
                     rfm12_state := STATE_RX_IDLE\<rparr>"
    and "checksum (isr_ffit cfg d s) = checksum s"
    and "rf_rx_buffers (isr_ffit cfg d s) =
           (rf_rx_buffers s)[unat (buffer_in_num (ctrl s)) :=
              (rx_in s)\<lparr>rx_status := STATUS_COMPLETE\<rparr>]"
    and "rf_tx_buffer (isr_ffit cfg d s) = rf_tx_buffer s"
    and "overrun (isr_ffit cfg d s) = overrun s"
    and "bus (isr_ffit cfg d s) = bus s @ [CMD_FIFORESET_CLEAR, CMD_FIFORESET_ACCEPT]"
  using assms
  by (simp_all add: isr_ffit_def isr_rx_active_def rx_in_map_def rx_in_def Let_def
        fifo_reset_def rfm12_data_def)

lemma rx_in_checksum_update [simp]: "rx_in (s\<lparr>checksum := x\<rparr>) = rx_in s"
  by (simp add: rx_in_def)

lemma rx_store_byte_in_bound:
  assumes "unat (bytecount (ctrl s)) < RFM12_RX_BUFFER_SIZE cfg + 3"
    and "rx_struct_store (unat (bytecount (ctrl s))) d (rx_in s) = Some b'"
  shows "rx_store_byte cfg d s = rx_in_map (\<lambda>_. b') s"
  using assms by (simp add: rx_store_byte_def)

lemma rx_store_byte_beyond:
  "RFM12_RX_BUFFER_SIZE cfg + 3 \<le> unat (bytecount (ctrl s)) \<Longrightarrow> rx_store_byte cfg d s = s"
  by (simp add: rx_store_byte_def)

lemma rx_store_byte_fields [simp]:
  "ctrl (rx_store_byte cfg d s) = ctrl s"
  "checksum (rx_store_byte cfg d s) = checksum s"
  "bus (rx_store_byte cfg d s) = bus s"
  "rf_tx_buffer (rx_store_byte cfg d s) = rf_tx_buffer s"
  by (simp_all add: rx_store_byte_def rx_in_map_def split: option.split)

lemma isr_active_byte:
  assumes "rfm12_state (ctrl s) = STATE_RX_ACTIVE"
    and "bytecount (ctrl s) < num_bytes (ctrl s)"
  shows "ctrl (isr_ffit cfg d s) =
           (if bytecount (ctrl s) = 2 \<and> checksum s XOR d \<noteq> 0xff
            then (ctrl s)\<lparr>rfm12_state := STATE_RX_IDLE\<rparr>
            else (ctrl s)\<lparr>bytecount := bytecount (ctrl s) + 1\<rparr>)"
    and "checksum (isr_ffit cfg d s) = checksum s XOR d"
    and "rf_tx_buffer (isr_ffit cfg d s) = rf_tx_buffer s"
    and "rf_rx_buffers (isr_ffit cfg d s) =
           rf_rx_buffers (rx_store_byte cfg d (s\<lparr>checksum := checksum s XOR d\<rparr>))"
    and "overrun (isr_ffit cfg d s) =
           overrun (rx_store_byte cfg d (s\<lparr>checksum := checksum s XOR d\<rparr>))"
  using assms
  by (simp_all add: isr_ffit_def isr_rx_active_def Let_def fifo_reset_def rfm12_data_def)

lemma isr_active_byte_stored:
  assumes "rfm12_state (ctrl s) = STATE_RX_ACTIVE"
    and "bytecount (ctrl s) < num_bytes (ctrl s)"
    and "unat (bytecount (ctrl s)) < RFM12_RX_BUFFER_SIZE cfg + 3"
    and "rx_struct_store (unat (bytecount (ctrl s))) d (rx_in s) = Some b'"
  shows "rf_rx_buffers (isr_ffit cfg d s) = (rf_rx_buffers s)[unat (buffer_in_num (ctrl s)) := b']"
    and "overrun (isr_ffit cfg d s) = overrun s"
proof -
  let ?s1 = "s\<lparr>checksum := checksum s XOR d\<rparr>"
  have "rx_store_byte cfg d ?s1 = rx_in_map (\<lambda>_. b') ?s1"
    using assms(3,4) by (intro rx_store_byte_in_bound) simp_all
  then show "rf_rx_buffers (isr_ffit cfg d s) = (rf_rx_buffers s)[unat (buffer_in_num (ctrl s)) := b']"
    and "overrun (isr_ffit cfg d s) = overrun s"
    using assms(1,2) by (simp_all add: isr_active_byte rx_in_map_def)
qed

lemma isr_active_byte_dropped:
  assumes "rfm12_state (ctrl s) = STATE_RX_ACTIVE"
    and "bytecount (ctrl s) < num_bytes (ctrl s)"
    and "RFM12_RX_BUFFER_SIZE cfg + 3 \<le> unat (bytecount (ctrl s))"
  shows "rf_rx_buffers (isr_ffit cfg d s) = rf_rx_buffers s"
    and "overrun (isr_ffit cfg d s) = overrun s"
    and "ctrl (isr_ffit cfg d s) = (ctrl s)\<lparr>bytecount := bytecount (ctrl s) + 1\<rparr>"
proof -
  let ?s1 = "s\<lparr>checksum := checksum s XOR d\<rparr>"
  have "rx_store_byte cfg d ?s1 = ?s1"
    using assms(3) by (intro rx_store_byte_beyond) simp
  then show "rf_rx_buffers (isr_ffit cfg d s) = rf_rx_buffers s"
    and "overrun (isr_ffit cfg d s) = overrun s"
    using assms(1,2) by (simp_all add: isr_active_byte)
  have "unat (bytecount (ctrl s)) \<noteq> 2"
    using assms(3) by simp
  then have "bytecount (ctrl s) \<noteq> 2"
    by auto
  then show "ctrl (isr_ffit cfg d s) = (ctrl s)\<lparr>bytecount := bytecount (ctrl s) + 1\<rparr>"
    using assms(1,2) by (simp add: isr_active_byte)
qed

lemma isr_ffit_wellformed:
  assumes "wellformed cfg s"
  shows "wellformed cfg (isr_ffit cfg d s)" and "overrun (isr_ffit cfg d s) = overrun s"
proof -
  let ?s = "isr_ffit cfg d s"
  let ?k = "unat (buffer_in_num (ctrl s))"
  have in2: "unat (buffer_in_num (ctrl s)) < 2"
    using assms by (simp add: wellformed_def)
  have len: "length (rx_buffer (rx_in s)) = RFM12_RX_BUFFER_SIZE cfg"
    using assms by (rule wellformed_slot)
  have "wellformed cfg ?s \<and> overrun ?s = overrun s"
  proof (cases "rfm12_state (ctrl s)")
    case STATE_RX_IDLE
    show ?thesis
    proof (cases "rx_status (rx_in s) = STATUS_FREE")
      case True
      note st = isr_idle_free [OF STATE_RX_IDLE True, of cfg d]
      have "wellformed cfg ?s"
        by (rule wellformed_stepI [OF assms st(4) st(3)]) (simp_all add: st(1) len in2)
      then show ?thesis by (simp add: st(5))
    next
      case False
      note st = isr_ffit_idle_busy_slot [OF STATE_RX_IDLE False, of cfg d]
      have "buffer_out_num (ctrl ?s) = buffer_out_num (ctrl s)"
        and "rf_tx_buffer ?s = rf_tx_buffer s"
        using STATE_RX_IDLE False
        by (simp_all add: isr_ffit_def isr_rx_idle_def rx_in_def fifo_reset_def rfm12_data_def
              Let_def)
      then have "wellformed cfg ?s"
        by (intro wellformed_eqI [OF assms]) (simp_all add: st)
      then show ?thesis by (simp add: st)
    qed
  next
    case STATE_RX_ACTIVE
    show ?thesis
    proof (cases "bytecount (ctrl s) < num_bytes (ctrl s)")
      case more: True
      note st = isr_active_byte [OF STATE_RX_ACTIVE more, of cfg d]
      show ?thesis
      proof (cases "unat (bytecount (ctrl s)) < RFM12_RX_BUFFER_SIZE cfg + 3")
        case True
        then have "unat (bytecount (ctrl s)) < length (rx_buffer (rx_in s)) + 3"
          using len by simp
        from rx_struct_store_in_bound [OF this, of d] obtain b'
          where b': "rx_struct_store (unat (bytecount (ctrl s))) d (rx_in s) = Some b'"
            and lb: "length (rx_buffer b') = length (rx_buffer (rx_in s))"
          by blast
        note stored = isr_active_byte_stored [OF STATE_RX_ACTIVE more True b']
        have "wellformed cfg ?s"
          by (rule wellformed_stepI [OF assms st(3) stored(1)]) (simp_all add: st(1) lb len in2)
        then show ?thesis by (simp add: stored(2))
      next
        case False
        then have beyond: "RFM12_RX_BUFFER_SIZE cfg + 3 \<le> unat (bytecount (ctrl s))" by simp
        note dropped = isr_active_byte_dropped [OF STATE_RX_ACTIVE more beyond, of d]
        have "wellformed cfg ?s"
          by (rule wellformed_eqI [OF assms st(3) dropped(1)]) (simp_all add: dropped(3))
        then show ?thesis by (simp add: dropped(2))
      qed
    next
      case False
      note st = isr_active_done [OF STATE_RX_ACTIVE False, of cfg d]
      have "unat (buffer_in_num (ctrl s) XOR 1) < 2"
        using index_cases [OF in2] by auto
      then have "wellformed cfg ?s"
        by (intro wellformed_stepI [OF assms st(4) st(3)]) (simp_all add: st(1) len)
      then show ?thesis by (simp add: st(5))
    qed
  next
    case STATE_TX
    then show ?thesis
      using assms
      by (auto simp: isr_ffit_def isr_tx_def Let_def fifo_reset_def rfm12_data_def wellformed_def)
  qed
  then show "wellformed cfg ?s" and "overrun ?s = overrun s" by simp_all
qed

lemma rx_feed_wellformed:
  "wellformed cfg s \<Longrightarrow>
   wellformed cfg (rx_feed cfg bs s) \<and> overrun (rx_feed cfg bs s) = overrun s"
proof (induction bs arbitrary: s)
  case Nil
  then show ?case by simp
next
  case (Cons b bs)
  from Cons.IH [of "isr_ffit cfg b s"] isr_ffit_wellformed [OF Cons.prems, of b]
  show ?case by simp
qed

section \<open>Stores stay inside the receive slot\<close>

text \<open>
  C8. In \<^verbatim>\<open>STATE_RX_ACTIVE\<close>, on a state whose arrays have their declared sizes, for every
  value of \<^verbatim>\<open>num_bytes\<close> (so for every advertised length byte) and every arriving byte \<open>d\<close>:
  \<^item> no store lands outside the slot, for this byte and for all bytes \<open>ds\<close> after it;
  \<^item> a byte of the packet (\<^verbatim>\<open>bytecount < num_bytes\<close>) is XORed into the checksum;
  \<^item> such a byte is stored at offset \<^verbatim>\<open>bytecount\<close> of the slot \<^verbatim>\<open>buffer_in_num\<close> when
    \<^verbatim>\<open>bytecount < RFM12_RX_BUFFER_SIZE + 3\<close>, an offset inside the struct, and then the other
    slot is untouched;
  \<^item> at an offset at or beyond that bound it is not stored, both slots stay as they are,
    and it is still counted: \<^verbatim>\<open>bytecount\<close> advances and the state stays \<^verbatim>\<open>STATE_RX_ACTIVE\<close>;
  \<^item> the byte that closes the packet (\<^verbatim>\<open>bytecount = num_bytes\<close>) is stored nowhere.
\<close>

theorem rx_store_within_slot:
  assumes "rfm12_state (ctrl s) = STATE_RX_ACTIVE" and "wellformed cfg s"
  shows "overrun (isr_ffit cfg d s) = overrun s \<and>
         overrun (rx_feed cfg (d # ds) s) = overrun s \<and>
         (bytecount (ctrl s) < num_bytes (ctrl s) \<longrightarrow>
            checksum (isr_ffit cfg d s) = checksum s XOR d) \<and>
         (bytecount (ctrl s) < num_bytes (ctrl s) \<and>
          unat (bytecount (ctrl s)) < RFM12_RX_BUFFER_SIZE cfg + 3 \<longrightarrow>
            (\<exists>b'. rx_struct_store (unat (bytecount (ctrl s))) d (rx_in s) = Some b' \<and>
                  rf_rx_buffers (isr_ffit cfg d s) =
                    (rf_rx_buffers s)[unat (buffer_in_num (ctrl s)) := b'])) \<and>
         (bytecount (ctrl s) < num_bytes (ctrl s) \<and>
          RFM12_RX_BUFFER_SIZE cfg + 3 \<le> unat (bytecount (ctrl s)) \<longrightarrow>
            rf_rx_buffers (isr_ffit cfg d s) = rf_rx_buffers s \<and>
            bytecount (ctrl (isr_ffit cfg d s)) = bytecount (ctrl s) + 1 \<and>
            rfm12_state (ctrl (isr_ffit cfg d s)) = STATE_RX_ACTIVE) \<and>
         (\<not> bytecount (ctrl s) < num_bytes (ctrl s) \<longrightarrow>
            map rx_buffer (rf_rx_buffers (isr_ffit cfg d s)) = map rx_buffer (rf_rx_buffers s))"
proof -
  have 1: "overrun (isr_ffit cfg d s) = overrun s"
    using assms(2) by (rule isr_ffit_wellformed)
  have 2: "overrun (rx_feed cfg (d # ds) s) = overrun s"
    using rx_feed_wellformed [OF assms(2)] by blast
  have 3: "checksum (isr_ffit cfg d s) = checksum s XOR d"
    if "bytecount (ctrl s) < num_bytes (ctrl s)"
    using assms(1) that by (rule isr_active_byte)
  have 4: "\<exists>b'. rx_struct_store (unat (bytecount (ctrl s))) d (rx_in s) = Some b' \<and>
             rf_rx_buffers (isr_ffit cfg d s) = (rf_rx_buffers s)[unat (buffer_in_num (ctrl s)) := b']"
    if more: "bytecount (ctrl s) < num_bytes (ctrl s)"
      and inb: "unat (bytecount (ctrl s)) < RFM12_RX_BUFFER_SIZE cfg + 3"
  proof -
    have "unat (bytecount (ctrl s)) < length (rx_buffer (rx_in s)) + 3"
      using inb wellformed_slot(2) [OF assms(2)] by simp
    from rx_struct_store_in_bound [OF this, of d] obtain b'
      where b': "rx_struct_store (unat (bytecount (ctrl s))) d (rx_in s) = Some b'"
      by blast
    from isr_active_byte_stored(1) [OF assms(1) more inb b'] b' show ?thesis
      by blast
  qed
  have 5: "rf_rx_buffers (isr_ffit cfg d s) = rf_rx_buffers s \<and>
           bytecount (ctrl (isr_ffit cfg d s)) = bytecount (ctrl s) + 1 \<and>
           rfm12_state (ctrl (isr_ffit cfg d s)) = STATE_RX_ACTIVE"
    if more: "bytecount (ctrl s) < num_bytes (ctrl s)"
      and "RFM12_RX_BUFFER_SIZE cfg + 3 \<le> unat (bytecount (ctrl s))"
    using isr_active_byte_dropped [OF assms(1) that, of d] assms(1) by simp
  have 6: "map rx_buffer (rf_rx_buffers (isr_ffit cfg d s)) = map rx_buffer (rf_rx_buffers s)"
    if "\<not> bytecount (ctrl s) < num_bytes (ctrl s)"
    using isr_active_done(3) [OF assms(1) that, of cfg d]
    by (simp add: map_update rx_in_def list_update_same_conv wellformed_slot(1) [OF assms(2)])
  from 1 2 3 4 5 6 show ?thesis by blast
qed

theorem rx_store_within_slot_witness:
  "rfm12_state (ctrl (rx_past_capacity sample_config)) = STATE_RX_ACTIVE \<and>
   bytecount (ctrl (rx_past_capacity sample_config)) = 7 \<and>
   num_bytes (ctrl (rx_past_capacity sample_config)) = 13 \<and>
   rx_buffer (rx_in (rx_past_capacity sample_config)) = [1, 2, 3, 4] \<and>
   rf_rx_buffers (isr_ffit sample_config 5 (rx_past_capacity sample_config))
     = rf_rx_buffers (rx_past_capacity sample_config) \<and>
   bytecount (ctrl (isr_ffit sample_config 5 (rx_past_capacity sample_config))) = 8 \<and>
   checksum (isr_ffit sample_config 5 (rx_past_capacity sample_config))
     = checksum (rx_past_capacity sample_config) XOR 5 \<and>
   \<not> overrun (rx_feed sample_config [5, 6, 7, 8, 9, 10, 11] (rx_past_capacity sample_config))"
proof -
  let ?s = "rx_past_capacity sample_config"
  have 1: "rfm12_state (ctrl ?s) = STATE_RX_ACTIVE" by code_simp
  have 2: "wellformed sample_config ?s" by code_simp
  have 3: "bytecount (ctrl ?s) = 7" and 4: "num_bytes (ctrl ?s) = 13"
    and 5: "rx_buffer (rx_in ?s) = [1, 2, 3, 4]" and 6: "\<not> overrun ?s"
    by code_simp+
  have 7: "bytecount (ctrl ?s) < num_bytes (ctrl ?s)"
    and 8: "RFM12_RX_BUFFER_SIZE sample_config + 3 \<le> unat (bytecount (ctrl ?s))"
    by code_simp+
  from rx_store_within_slot [OF 1 2, of 5 "[6, 7, 8, 9, 10, 11]"] 1 3 4 5 6 7 8
  show ?thesis by simp
qed

section \<open>Facts about the transmit path\<close>

lemma wire_append [simp]: "wire (xs @ ys) = wire xs @ wire ys"
  by (induction xs rule: wire.induct) simp_all

lemma wire_tx_byte_cmd [simp]: "wire (map (tx_byte_cmd b) ixs) = map (tx_struct_load b) ixs"
  by (induction ixs) (simp_all add: tx_byte_cmd_def split: option.split)

lemma isr_tx_byte:
  assumes "rfm12_state (ctrl s) = STATE_TX" and "bytecount (ctrl s) < num_bytes (ctrl s)"
  shows "ctrl (isr_ffit cfg x s) = (ctrl s)\<lparr>bytecount := bytecount (ctrl s) + 1\<rparr>"
    and "bus (isr_ffit cfg x s) =
           bus s @ [tx_byte_cmd (rf_tx_buffer s) (unat (bytecount (ctrl s)))]"
    and "rf_tx_buffer (isr_ffit cfg x s) = rf_tx_buffer s"
    and "rf_rx_buffers (isr_ffit cfg x s) = rf_rx_buffers s"
  using assms by (simp_all add: isr_ffit_def isr_tx_def rfm12_data_def Let_def)

lemma isr_tx_done:
  assumes "rfm12_state (ctrl s) = STATE_TX" and "\<not> bytecount (ctrl s) < num_bytes (ctrl s)"
  shows "ctrl (isr_ffit cfg x s) = (ctrl s)\<lparr>txstate := STATUS_FREE, rfm12_state := STATE_RX_IDLE\<rparr>"
    and "bus (isr_ffit cfg x s) =
           bus s @ [CMD_PWRMGT_RECEIVE, CMD_TX 0xaa, CMD_FIFORESET_CLEAR, CMD_FIFORESET_ACCEPT]"
    and "rf_tx_buffer (isr_ffit cfg x s) = rf_tx_buffer s"
    and "rf_rx_buffers (isr_ffit cfg x s) = rf_rx_buffers s"
  using assms by (simp_all add: isr_ffit_def isr_tx_def rfm12_data_def fifo_reset_def Let_def)

lemma tx_drain_run:
  "rfm12_state (ctrl s) = STATE_TX \<Longrightarrow>
   bus (tx_drain cfg s) =
     bus s @ map (tx_byte_cmd (rf_tx_buffer s))
               [unat (bytecount (ctrl s)) ..< unat (num_bytes (ctrl s))]
       @ [CMD_PWRMGT_RECEIVE, CMD_TX 0xaa, CMD_FIFORESET_CLEAR, CMD_FIFORESET_ACCEPT] \<and>
   rfm12_state (ctrl (tx_drain cfg s)) = STATE_RX_IDLE \<and>
   txstate (ctrl (tx_drain cfg s)) = STATUS_FREE \<and>
   rf_tx_buffer (tx_drain cfg s) = rf_tx_buffer s \<and>
   rf_rx_buffers (tx_drain cfg s) = rf_rx_buffers s"
proof (induction cfg s rule: tx_drain.induct)
  case (1 cfg s)
  let ?s = "isr_ffit cfg 0 s"
  have unfold: "tx_drain cfg s = tx_drain cfg ?s"
    using "1.prems" by (subst tx_drain.simps) simp
  show ?case
  proof (cases "bytecount (ctrl s) < num_bytes (ctrl s)")
    case True
    note st = isr_tx_byte [OF "1.prems" True, of cfg 0]
    have tx: "rfm12_state (ctrl ?s) = STATE_TX"
      using "1.prems" by (simp add: st(1))
    have lt: "unat (bytecount (ctrl s)) < unat (num_bytes (ctrl s))"
      using True by (simp add: word_less_nat_alt)
    have next_count: "unat (bytecount (ctrl ?s)) = Suc (unat (bytecount (ctrl s)))"
      using True by (simp add: st(1) unat_succ_byte)
    have nb: "num_bytes (ctrl ?s) = num_bytes (ctrl s)"
      by (simp add: st(1))
    from "1.IH" [OF "1.prems" tx] show ?thesis
      unfolding unfold next_count nb st(2,3,4)
      using lt by (simp add: upt_conv_Cons)
  next
    case False
    note st = isr_tx_done [OF "1.prems" False, of cfg 0]
    have idle: "rfm12_state (ctrl ?s) \<noteq> STATE_TX"
      by (simp add: st(1))
    have stop: "tx_drain cfg ?s = ?s"
      using idle by (subst tx_drain.simps) simp
    have "\<not> unat (bytecount (ctrl s)) < unat (num_bytes (ctrl s))"
      using False by (simp add: word_less_nat_alt)
    then show ?thesis
      unfolding unfold stop by (simp add: st)
  qed
qed

lemma map_nth_take: "k \<le> length m \<Longrightarrow> map ((!) m) [0..<k] = take k m"
  by (simp add: list_eq_iff_nth_eq)

lemma tx_struct_load_prefix:
  assumes "length (tx_sync b) = 2" and "n \<le> length (tx_buffer b)"
  shows "map (tx_struct_load b) [0..<n + 5] =
           map Some (tx_sync b @ [tx_len b, tx_type b, tx_checksum b] @ take n (tx_buffer b))"
proof -
  let ?m = "tx_struct_image b"
  have len: "length ?m = length (tx_buffer b) + 5"
    using assms(1) by (simp add: tx_struct_image_def)
  then have "map (tx_struct_load b) [0..<n + 5] = map Some (map ((!) ?m) [0..<n + 5])"
    using assms(2) by (simp add: tx_struct_load_def Let_def)
  also have "map ((!) ?m) [0..<n + 5] = take (n + 5) ?m"
    using len assms(2) by (intro map_nth_take) simp
  also have "take (n + 5) ?m =
      tx_sync b @ [tx_len b, tx_type b, tx_checksum b] @ take n (tx_buffer b)"
    using assms(1) by (simp add: tx_struct_image_def take_Cons')
  finally show ?thesis .
qed

lemma tx_struct_load_trailer:
  assumes "length (tx_sync b) = 2"
  shows "tx_struct_load b (n + 5) =
           (if n < length (tx_buffer b) then Some (tx_buffer b ! n) else None)"
  using assms by (simp add: tx_struct_load_def tx_struct_image_def Let_def nth_append)

lemma rfm12_tx_enqueued:
  assumes "txstate (ctrl s) = STATUS_FREE" and "unat len \<le> RFM12_TX_BUFFER_SIZE cfg"
  shows "fst (rfm12_tx cfg len type data s) = RFM12_TX_ENQUEUED"
    and "ctrl (snd (rfm12_tx cfg len type data s)) = (ctrl s)\<lparr>txstate := STATUS_OCCUPIED\<rparr>"
    and "rf_tx_buffer (snd (rfm12_tx cfg len type data s)) =
           (rf_tx_buffer s)\<lparr>tx_buffer := memcpy (tx_buffer (rf_tx_buffer s)) data (unat len),
                             tx_len := len, tx_type := type,
                             tx_checksum := len XOR type XOR 0xff\<rparr>"
    and "bus (snd (rfm12_tx cfg len type data s)) = bus s"
    and "channel_free_count (snd (rfm12_tx cfg len type data s)) = channel_free_count s"
    and "rf_rx_buffers (snd (rfm12_tx cfg len type data s)) = rf_rx_buffers s"
  using assms by (simp_all add: rfm12_tx_def rfm12_start_tx_def Let_def)

lemma rfm12_tick_arms:
  assumes "tick_arms cfg status s"
  shows "ctrl (rfm12_tick cfg status s) =
           (ctrl s)\<lparr>num_bytes := tx_len (rf_tx_buffer s) + 6, bytecount := 0,
                     rfm12_state := STATE_TX\<rparr>"
    and "bus (rfm12_tick cfg status s) =
           bus s @ [CMD_TX PREAMBLE, CMD_TX PREAMBLE, CMD_PWRMGT_ET]"
    and "rf_tx_buffer (rfm12_tick cfg status s) = rf_tx_buffer s"
    and "rf_rx_buffers (rfm12_tick cfg status s) = rf_rx_buffers s"
  using assms by (simp_all add: tick_arms_def rfm12_tick_def tick_arm_def rfm12_data_def Let_def)

lemma transmit_bus:
  assumes wf: "wellformed cfg s"
    and idle: "rfm12_state (ctrl s) = STATE_RX_IDLE"
    and free: "txstate (ctrl s) = STATUS_FREE"
    and count: "channel_free_count s = 0"
    and clear: "status AND RFM12_STATUS_RSSI cfg = 0"
    and fits: "unat len \<le> RFM12_TX_BUFFER_SIZE cfg"
    and small: "unat len \<le> 249"
    and data: "unat len \<le> length data"
  shows "wire (bus (transmit cfg status len type data s)) =
           wire (bus s)
             @ map Some ([PREAMBLE, PREAMBLE] @ tx_sync (rf_tx_buffer s)
                         @ [len, type, len XOR type XOR 0xff] @ take (unat len) data)
             @ [if unat len < RFM12_TX_BUFFER_SIZE cfg
                then Some (tx_buffer (rf_tx_buffer s) ! unat len) else None,
                Some 0xaa]"
    and "rfm12_state (ctrl (transmit cfg status len type data s)) = STATE_RX_IDLE"
    and "txstate (ctrl (transmit cfg status len type data s)) = STATUS_FREE"
    and "wire (bus (rfm12_tick cfg status (snd (rfm12_tx cfg len type data s)))) =
           wire (bus s) @ [Some PREAMBLE, Some PREAMBLE]"
proof -
  let ?s1 = "snd (rfm12_tx cfg len type data s)"
  let ?s2 = "rfm12_tick cfg status ?s1"
  let ?b1 = "rf_tx_buffer ?s1"
  let ?n = "unat len"
  note enq = rfm12_tx_enqueued [OF free fits, of type data]
  have "tick_arms cfg status ?s1"
    using idle count clear by (simp add: tick_arms_def enq)
  note arm = rfm12_tick_arms [OF this]
  have tx: "rfm12_state (ctrl ?s2) = STATE_TX"
    by (simp add: arm(1))
  have "?n + 6 < 256"
    using small by simp
  then have nb: "unat (num_bytes (ctrl ?s2)) = ?n + 6"
    by (simp add: arm(1) enq(3) unat_word_ariths)
  have bc: "unat (bytecount (ctrl ?s2)) = 0"
    by (simp add: arm(1))
  have sync: "length (tx_sync ?b1) = 2"
    using wf by (simp add: enq(3) wellformed_def)
  have buf: "tx_buffer ?b1 = take ?n data @ drop ?n (tx_buffer (rf_tx_buffer s))"
    by (simp add: enq(3) memcpy_def)
  have size: "length (tx_buffer ?b1) = RFM12_TX_BUFFER_SIZE cfg"
    using wf fits data by (simp add: buf wellformed_def)
  then have "?n \<le> length (tx_buffer ?b1)"
    using fits by simp
  from tx_struct_load_prefix [OF sync this]
  have prefix: "map (tx_struct_load ?b1) [0..<?n + 5] =
      map Some (tx_sync (rf_tx_buffer s) @ [len, type, len XOR type XOR 0xff] @ take ?n data)"
    using data by (simp add: enq(3) memcpy_def)
  have "tx_buffer ?b1 ! ?n = tx_buffer (rf_tx_buffer s) ! ?n"
    if "?n < RFM12_TX_BUFFER_SIZE cfg"
    using that data wf by (simp add: buf nth_append wellformed_def)
  then have trailer: "tx_struct_load ?b1 (?n + 5) =
      (if ?n < RFM12_TX_BUFFER_SIZE cfg then Some (tx_buffer (rf_tx_buffer s) ! ?n) else None)"
    using size by (simp add: tx_struct_load_trailer [OF sync])
  have "?n + 6 = Suc (?n + 5)"
    by simp
  then have "[0..<?n + 6] = [0..<?n + 5] @ [?n + 5]"
    by (simp only: upt_Suc_append [OF le0])
  then have sent: "map (tx_struct_load ?b1) [0..<?n + 6] =
      map Some (tx_sync (rf_tx_buffer s) @ [len, type, len XOR type XOR 0xff] @ take ?n data)
        @ [if ?n < RFM12_TX_BUFFER_SIZE cfg then Some (tx_buffer (rf_tx_buffer s) ! ?n) else None]"
    using prefix trailer by simp
  from tx_drain_run [OF tx, of cfg]
  show "wire (bus (transmit cfg status len type data s)) =
           wire (bus s)
             @ map Some ([PREAMBLE, PREAMBLE] @ tx_sync (rf_tx_buffer s)
                         @ [len, type, len XOR type XOR 0xff] @ take (unat len) data)
             @ [if unat len < RFM12_TX_BUFFER_SIZE cfg
                then Some (tx_buffer (rf_tx_buffer s) ! unat len) else None,
                Some 0xaa]"
    and "rfm12_state (ctrl (transmit cfg status len type data s)) = STATE_RX_IDLE"
    and "txstate (ctrl (transmit cfg status len type data s)) = STATUS_FREE"
    unfolding transmit_def nb bc arm(3)
    by (simp_all add: arm(2) enq(4) sent)
  show "wire (bus ?s2) = wire (bus s) @ [Some PREAMBLE, Some PREAMBLE]"
    by (simp add: arm(2) enq(4))
qed

section \<open>What a transmission puts on the air\<close>

text \<open>
  C1, as amended. For every type byte and every length that does not exceed the capacity
  of the transmit buffer nor 249: \<^verbatim>\<open>rfm12_tx\<close> accepts the packet; the tick that arms the
  transmission writes the two preamble bytes \<open>0xaa\<close> to the transmit register; and the
  handler's \<^verbatim>\<open>STATE_TX\<close> branch then writes, in this order, the two bytes of the sync pattern,
  the length, the type, the checksum \<open>length XOR type XOR 0xff\<close>, the \<open>length\<close> payload
  bytes, then one trailer byte and the dummy byte \<open>0xaa\<close>, and nothing else. The trailer
  is the byte of the buffer behind the payload, or a byte from outside the buffer when the
  payload fills it. The driver is idle and the buffer free again afterwards.
\<close>

theorem transmit_wire:
  assumes "wellformed cfg s"
    and "rfm12_state (ctrl s) = STATE_RX_IDLE"
    and "txstate (ctrl s) = STATUS_FREE"
    and "channel_free_count s = 0"
    and "status AND RFM12_STATUS_RSSI cfg = 0"
    and "unat len \<le> RFM12_TX_BUFFER_SIZE cfg"
    and "unat len \<le> 249"
    and "unat len \<le> length data"
  shows "fst (rfm12_tx cfg len type data s) = RFM12_TX_ENQUEUED \<and>
         on_air s (rfm12_tick cfg status (snd (rfm12_tx cfg len type data s))) =
           [Some 0xaa, Some 0xaa] \<and>
         on_air (rfm12_tick cfg status (snd (rfm12_tx cfg len type data s)))
                (transmit cfg status len type data s) =
           map Some (tx_sync (rf_tx_buffer s) @ [len, type, len XOR type XOR 0xff]
                     @ take (unat len) data)
             @ [if unat len < RFM12_TX_BUFFER_SIZE cfg
                then Some (tx_buffer (rf_tx_buffer s) ! unat len) else None,
                Some 0xaa] \<and>
         on_air s (transmit cfg status len type data s) =
           map Some ([0xaa, 0xaa] @ tx_sync (rf_tx_buffer s)
                     @ [len, type, len XOR type XOR 0xff] @ take (unat len) data)
             @ [if unat len < RFM12_TX_BUFFER_SIZE cfg
                then Some (tx_buffer (rf_tx_buffer s) ! unat len) else None,
                Some 0xaa] \<and>
         length (tx_sync (rf_tx_buffer s)) = 2 \<and>
         rfm12_state (ctrl (transmit cfg status len type data s)) = STATE_RX_IDLE \<and>
         txstate (ctrl (transmit cfg status len type data s)) = STATUS_FREE"
proof -
  have "length (tx_sync (rf_tx_buffer s)) = 2"
    using assms(1) by (simp add: wellformed_def)
  then show ?thesis
    using transmit_bus [OF assms] rfm12_tx_enqueued(1) [OF assms(3,6)]
    by (simp add: on_air_def PREAMBLE_def)
qed

theorem transmit_wire_witness:
  "fst (rfm12_tx sample_config 4 7 [0x11, 0x22, 0x33, 0x44] (channel_clear sample_config))
     = RFM12_TX_ENQUEUED \<and>
   on_air (channel_clear sample_config)
     (transmit sample_config 0 4 7 [0x11, 0x22, 0x33, 0x44] (channel_clear sample_config))
     = [Some 0xaa, Some 0xaa, Some 0x2d, Some 0xd4, Some 4, Some 7, Some 0xfc,
        Some 0x11, Some 0x22, Some 0x33, Some 0x44, None, Some 0xaa] \<and>
   on_air (channel_clear sample_config)
     (transmit sample_config 0 2 7 [0x11, 0x22] (channel_clear sample_config))
     = [Some 0xaa, Some 0xaa, Some 0x2d, Some 0xd4, Some 2, Some 7, Some 0xfa,
        Some 0x11, Some 0x22, Some 0, Some 0xaa]"
proof -
  let ?s = "channel_clear sample_config"
  have 1: "wellformed sample_config ?s" by code_simp
  have 2: "rfm12_state (ctrl ?s) = STATE_RX_IDLE" by code_simp
  have 3: "txstate (ctrl ?s) = STATUS_FREE" by code_simp
  have 4: "channel_free_count ?s = 0" by code_simp
  have 5: "(0 :: 16 word) AND RFM12_STATUS_RSSI sample_config = 0" by simp
  have 6: "unat (4 :: byte) \<le> RFM12_TX_BUFFER_SIZE sample_config"
    and 12: "unat (2 :: byte) \<le> RFM12_TX_BUFFER_SIZE sample_config" by code_simp+
  have 7: "unat (4 :: byte) \<le> 249" and 13: "unat (2 :: byte) \<le> 249" by simp_all
  have 8: "unat (4 :: byte) \<le> length [0x11, 0x22, 0x33, 0x44 :: byte]"
    and 14: "unat (2 :: byte) \<le> length [0x11, 0x22 :: byte]" by simp_all
  have 9: "tx_sync (rf_tx_buffer ?s) = [0x2d, 0xd4]"
    and 10: "tx_buffer (rf_tx_buffer ?s) = [0, 0, 0, 0]"
    and 11: "RFM12_TX_BUFFER_SIZE sample_config = 4" by code_simp+
  from transmit_wire [OF 1 2 3 4 5 6 7 8, of 7] transmit_wire [OF 1 2 3 4 5 12 13 14, of 7]
  show ?thesis
    unfolding 9 10 11 by simp
qed

text \<open>
  Two cases outside this statement. What goes on the air begins with the two preamble
  bytes, not with the sync pattern. And with a 250-byte buffer a packet of length 250 is
  accepted, but \<open>250 + 6\<close> wraps to 0 in the byte \<^verbatim>\<open>num_bytes\<close>: after the preamble the
  handler sends the dummy byte and nothing of the packet.
\<close>

theorem transmit_wire_counterexample:
  "tx_sync (rf_tx_buffer (channel_clear sample_config)) = [0x2d, 0xd4] \<and>
   take 2 (on_air (channel_clear sample_config)
     (transmit sample_config 0 2 7 [0x11, 0x22] (channel_clear sample_config)))
     = [Some 0xaa, Some 0xaa] \<and>
   unat (250 :: byte) \<le> RFM12_TX_BUFFER_SIZE large_config \<and>
   fst (rfm12_tx large_config 250 7 (replicate 250 0x11) (channel_clear large_config))
     = RFM12_TX_ENQUEUED \<and>
   on_air (channel_clear large_config)
     (transmit large_config 0 250 7 (replicate 250 0x11) (channel_clear large_config))
     = [Some 0xaa, Some 0xaa, Some 0xaa]"
  by code_simp

section \<open>Receiving a header and a whole packet\<close>

lemma rx_header_first_two:
  assumes idle: "rfm12_state (ctrl s) = STATE_RX_IDLE"
    and wf: "wellformed cfg s"
    and free: "rx_status (rx_in s) = STATUS_FREE"
    and len: "unat len \<le> 252"
  shows "ctrl (rx_feed cfg [len, type] s) =
           (ctrl s)\<lparr>bytecount := 2, num_bytes := len + PACKET_OVERHEAD,
                     rfm12_state := STATE_RX_ACTIVE\<rparr>"
    and "checksum (rx_feed cfg [len, type] s) = len XOR type"
    and "rf_rx_buffers (rx_feed cfg [len, type] s) =
           (rf_rx_buffers s)[unat (buffer_in_num (ctrl s)) :=
              (rx_in s)\<lparr>rx_len := len, rx_type := type\<rparr>]"
    and "rf_tx_buffer (rx_feed cfg [len, type] s) = rf_tx_buffer s"
proof -
  let ?k = "unat (buffer_in_num (ctrl s))"
  let ?s1 = "isr_ffit cfg len s"
  note k = wellformed_slot(1) [OF wf]
  note s1 = isr_idle_free [OF idle free, of cfg len]
  have a1: "rfm12_state (ctrl ?s1) = STATE_RX_ACTIVE"
    by (simp add: s1(1))
  have "unat (num_bytes (ctrl ?s1)) = unat len + 3"
    using len by (simp add: s1(1) PACKET_OVERHEAD_def unat_word_ariths)
  then have m1: "bytecount (ctrl ?s1) < num_bytes (ctrl ?s1)"
    by (simp add: word_less_nat_alt s1(1))
  have in1: "rx_in ?s1 = (rx_in s)\<lparr>rx_len := len\<rparr>"
    using k by (simp add: rx_in_def s1(1,3))
  have b1: "unat (bytecount (ctrl ?s1)) < RFM12_RX_BUFFER_SIZE cfg + 3"
    by (simp add: s1(1))
  have st1: "rx_struct_store (unat (bytecount (ctrl ?s1))) type (rx_in ?s1) =
      Some ((rx_in s)\<lparr>rx_len := len, rx_type := type\<rparr>)"
    by (simp add: s1(1) in1 rx_struct_store_def)
  note s2 = isr_active_byte [OF a1 m1, of cfg type]
    isr_active_byte_stored [OF a1 m1 b1 st1]
  show "ctrl (rx_feed cfg [len, type] s) =
           (ctrl s)\<lparr>bytecount := 2, num_bytes := len + PACKET_OVERHEAD,
                     rfm12_state := STATE_RX_ACTIVE\<rparr>"
    by (simp add: s2(1) s1(1))
  show "checksum (rx_feed cfg [len, type] s) = len XOR type"
    by (simp add: s2(2) s1(2))
  show "rf_rx_buffers (rx_feed cfg [len, type] s) =
           (rf_rx_buffers s)[?k := (rx_in s)\<lparr>rx_len := len, rx_type := type\<rparr>]"
    by (simp add: s2(6) s1(1,3))
  show "rf_tx_buffer (rx_feed cfg [len, type] s) = rf_tx_buffer s"
    by (simp add: s2(3) s1(4))
qed

lemma rx_feed_append: "rx_feed cfg (xs @ ys) s = rx_feed cfg ys (rx_feed cfg xs s)"
  by (induction xs arbitrary: s) simp_all

lemma rx_header:
  assumes idle: "rfm12_state (ctrl s) = STATE_RX_IDLE"
    and wf: "wellformed cfg s"
    and free: "rx_status (rx_in s) = STATUS_FREE"
    and len: "unat len \<le> 252"
  shows "ctrl (rx_feed cfg [len, type, ck] s) =
           (if len XOR type XOR ck = 0xff
            then (ctrl s)\<lparr>bytecount := 3, num_bytes := len + PACKET_OVERHEAD,
                           rfm12_state := STATE_RX_ACTIVE\<rparr>
            else (ctrl s)\<lparr>bytecount := 2, num_bytes := len + PACKET_OVERHEAD,
                           rfm12_state := STATE_RX_IDLE\<rparr>)"
    and "rf_rx_buffers (rx_feed cfg [len, type, ck] s) =
           (rf_rx_buffers s)[unat (buffer_in_num (ctrl s)) :=
              (rx_in s)\<lparr>rx_len := len, rx_type := type, rx_checksum := ck\<rparr>]"
    and "rf_tx_buffer (rx_feed cfg [len, type, ck] s) = rf_tx_buffer s"
proof -
  let ?k = "unat (buffer_in_num (ctrl s))"
  let ?s2 = "isr_ffit cfg type (isr_ffit cfg len s)"
  note k = wellformed_slot(1) [OF wf]
  note s2 = rx_header_first_two [OF idle wf free len, of type, unfolded rx_feed.simps]
  have feed: "rx_feed cfg [len, type, ck] s = isr_ffit cfg ck ?s2"
    by simp
  have a2: "rfm12_state (ctrl ?s2) = STATE_RX_ACTIVE"
    by (simp add: s2(1))
  have "unat (num_bytes (ctrl ?s2)) = unat len + 3"
    using len by (simp add: s2(1) PACKET_OVERHEAD_def unat_word_ariths)
  then have m2: "bytecount (ctrl ?s2) < num_bytes (ctrl ?s2)"
    by (simp add: word_less_nat_alt s2(1))
  have in2: "rx_in ?s2 = (rx_in s)\<lparr>rx_len := len, rx_type := type\<rparr>"
    using k by (simp add: rx_in_def s2(1,3))
  have b2: "unat (bytecount (ctrl ?s2)) < RFM12_RX_BUFFER_SIZE cfg + 3"
    by (simp add: s2(1))
  have st2: "rx_struct_store (unat (bytecount (ctrl ?s2))) ck (rx_in ?s2) =
      Some ((rx_in s)\<lparr>rx_len := len, rx_type := type, rx_checksum := ck\<rparr>)"
    by (simp add: s2(1) in2 rx_struct_store_def)
  note s3 = isr_active_byte [OF a2 m2, of cfg ck]
    isr_active_byte_stored [OF a2 m2 b2 st2]
  show "ctrl (rx_feed cfg [len, type, ck] s) =
           (if len XOR type XOR ck = 0xff
            then (ctrl s)\<lparr>bytecount := 3, num_bytes := len + PACKET_OVERHEAD,
                           rfm12_state := STATE_RX_ACTIVE\<rparr>
            else (ctrl s)\<lparr>bytecount := 2, num_bytes := len + PACKET_OVERHEAD,
                           rfm12_state := STATE_RX_IDLE\<rparr>)"
    unfolding feed s3(1) by (simp add: s2(1,2) xor.assoc)
  show "rf_rx_buffers (rx_feed cfg [len, type, ck] s) =
           (rf_rx_buffers s)[?k := (rx_in s)\<lparr>rx_len := len, rx_type := type, rx_checksum := ck\<rparr>]"
    unfolding feed s3(6) by (simp add: s2(1,3))
  show "rf_tx_buffer (rx_feed cfg [len, type, ck] s) = rf_tx_buffer s"
    unfolding feed s3(3) by (simp add: s2(4))
qed


lemma rx_payload:
  assumes "rfm12_state (ctrl s) = STATE_RX_ACTIVE"
    and "unat (buffer_in_num (ctrl s)) < length (rf_rx_buffers s)"
    and "rx_buffer (rx_in s) = pre @ rest"
    and "unat (bytecount (ctrl s)) = 3 + length pre"
    and "3 + length pre + length bs \<le> unat (num_bytes (ctrl s))"
    and "length bs \<le> length rest"
    and "length pre + length rest \<le> RFM12_RX_BUFFER_SIZE cfg"
  shows "ctrl (rx_feed cfg bs s) =
           (ctrl s)\<lparr>bytecount := bytecount (ctrl s) + of_nat (length bs)\<rparr> \<and>
         rf_rx_buffers (rx_feed cfg bs s) =
           (rf_rx_buffers s)[unat (buffer_in_num (ctrl s)) :=
              (rx_in s)\<lparr>rx_buffer := pre @ bs @ drop (length bs) rest\<rparr>]"
  using assms
proof (induction bs arbitrary: s pre rest)
  case Nil
  have "(rx_in s)\<lparr>rx_buffer := pre @ rest\<rparr> = rx_in s"
    using Nil.prems(3) by simp
  then show ?case
    by (simp add: rx_in_def)
next
  case (Cons b bs)
  let ?k = "unat (buffer_in_num (ctrl s))"
  let ?s1 = "isr_ffit cfg b s"
  from Cons.prems(6) obtain r rs where rest: "rest = r # rs"
    by (cases rest) simp_all
  have more: "bytecount (ctrl s) < num_bytes (ctrl s)"
    using Cons.prems(4,5) by (simp add: word_less_nat_alt)
  have inb: "unat (bytecount (ctrl s)) < RFM12_RX_BUFFER_SIZE cfg + 3"
    using Cons.prems(4,7) rest by simp
  let ?b' = "(rx_in s)\<lparr>rx_buffer := pre @ b # rs\<rparr>"
  have st: "rx_struct_store (unat (bytecount (ctrl s))) b (rx_in s) = Some ?b'"
    using Cons.prems(3,4) rest by (simp add: rx_struct_store_def)
  have "unat (bytecount (ctrl s)) \<noteq> 2"
    using Cons.prems(4) by simp
  then have not2: "bytecount (ctrl s) \<noteq> 2"
    by auto
  note step = isr_active_byte [OF Cons.prems(1) more, of cfg b]
    isr_active_byte_stored [OF Cons.prems(1) more inb st]
  have c1: "ctrl ?s1 = (ctrl s)\<lparr>bytecount := bytecount (ctrl s) + 1\<rparr>"
    using not2 by (simp add: step(1))
  have r1: "rf_rx_buffers ?s1 = (rf_rx_buffers s)[?k := ?b']"
    by (rule step(6))
  have in1: "rx_in ?s1 = ?b'"
    using Cons.prems(2) by (simp add: rx_in_def c1 r1)
  have "ctrl (rx_feed cfg bs ?s1) =
           (ctrl ?s1)\<lparr>bytecount := bytecount (ctrl ?s1) + of_nat (length bs)\<rparr> \<and>
        rf_rx_buffers (rx_feed cfg bs ?s1) =
           (rf_rx_buffers ?s1)[unat (buffer_in_num (ctrl ?s1)) :=
              (rx_in ?s1)\<lparr>rx_buffer := (pre @ [b]) @ bs @ drop (length bs) rs\<rparr>]"
  proof (rule Cons.IH)
    show "rfm12_state (ctrl ?s1) = STATE_RX_ACTIVE"
      using Cons.prems(1) by (simp add: c1)
    show "unat (buffer_in_num (ctrl ?s1)) < length (rf_rx_buffers ?s1)"
      using Cons.prems(2) by (simp add: c1 r1)
    show "rx_buffer (rx_in ?s1) = (pre @ [b]) @ rs"
      by (simp add: in1)
    show "unat (bytecount (ctrl ?s1)) = 3 + length (pre @ [b])"
      using Cons.prems(4) more by (simp add: c1 unat_succ_byte)
    show "3 + length (pre @ [b]) + length bs \<le> unat (num_bytes (ctrl ?s1))"
      using Cons.prems(5) by (simp add: c1)
    show "length bs \<le> length rs"
      using Cons.prems(6) rest by simp
    show "length (pre @ [b]) + length rs \<le> RFM12_RX_BUFFER_SIZE cfg"
      using Cons.prems(7) rest by simp
  qed
  then show ?case
    by (simp add: c1 r1 in1 rest add.assoc)
qed

lemma isr_idle_other_slot:
  assumes "rfm12_state (ctrl s) = STATE_RX_IDLE" and "j \<noteq> unat (buffer_in_num (ctrl s))"
  shows "rf_rx_buffers (isr_ffit cfg d s) ! j = rf_rx_buffers s ! j"
proof (cases "rx_status (rx_in s) = STATUS_FREE")
  case True
  then show ?thesis
    using assms by (simp add: isr_idle_free(3))
next
  case False
  then show ?thesis
    using assms by (simp add: isr_ffit_idle_busy_slot(1))
qed

lemma checksum_closes: "len XOR type XOR (len XOR type XOR 0xff) = (0xff :: byte)"
  by (simp add: ac_simps)

lemma rx_frame:
  assumes idle: "rfm12_state (ctrl s) = STATE_RX_IDLE"
    and wf: "wellformed cfg s"
    and free: "rx_status (rx_in s) = STATUS_FREE"
    and len: "unat len \<le> 252"
    and fits: "unat len \<le> RFM12_RX_BUFFER_SIZE cfg"
    and payload: "length payload = unat len"
  shows "ctrl (rx_feed cfg ([len, type, len XOR type XOR 0xff] @ payload @ [x]) s) =
           (ctrl s)\<lparr>bytecount := len + 3, num_bytes := len + PACKET_OVERHEAD,
                     buffer_in_num := buffer_in_num (ctrl s) XOR 1,
                     rfm12_state := STATE_RX_IDLE\<rparr>"
    and "rf_rx_buffers (rx_feed cfg ([len, type, len XOR type XOR 0xff] @ payload @ [x]) s) =
           (rf_rx_buffers s)[unat (buffer_in_num (ctrl s)) :=
              (rx_in s)\<lparr>rx_len := len, rx_type := type, rx_checksum := len XOR type XOR 0xff,
                rx_buffer := payload @ drop (unat len) (rx_buffer (rx_in s)),
                rx_status := STATUS_COMPLETE\<rparr>]"
proof -
  let ?k = "unat (buffer_in_num (ctrl s))"
  let ?ck = "len XOR type XOR 0xff"
  let ?s3 = "rx_feed cfg [len, type, ?ck] s"
  let ?s4 = "rx_feed cfg payload ?s3"
  note k = wellformed_slot(1) [OF wf]
  have ok: "len XOR type XOR ?ck = 0xff"
    by (rule checksum_closes)
  note hdr = rx_header [OF idle wf free len, of type ?ck]
  have c3: "ctrl ?s3 = (ctrl s)\<lparr>bytecount := 3, num_bytes := len + PACKET_OVERHEAD,
      rfm12_state := STATE_RX_ACTIVE\<rparr>"
    using ok by (simp add: hdr(1) del: rx_feed.simps)
  have in3: "rx_in ?s3 = (rx_in s)\<lparr>rx_len := len, rx_type := type, rx_checksum := ?ck\<rparr>"
    using k by (simp add: rx_in_def c3 hdr(2) del: rx_feed.simps)
  have nb: "unat (num_bytes (ctrl ?s3)) = unat len + 3"
    using len by (simp add: c3 PACKET_OVERHEAD_def unat_word_ariths del: rx_feed.simps)
  have pay: "ctrl ?s4 = (ctrl ?s3)\<lparr>bytecount := bytecount (ctrl ?s3) + of_nat (length payload)\<rparr> \<and>
      rf_rx_buffers ?s4 = (rf_rx_buffers ?s3)[unat (buffer_in_num (ctrl ?s3)) :=
         (rx_in ?s3)\<lparr>rx_buffer := [] @ payload @ drop (length payload) (rx_buffer (rx_in s))\<rparr>]"
  proof (rule rx_payload)
    show "rfm12_state (ctrl ?s3) = STATE_RX_ACTIVE"
      by (simp add: c3 del: rx_feed.simps)
    show "unat (buffer_in_num (ctrl ?s3)) < length (rf_rx_buffers ?s3)"
      using k by (simp add: c3 hdr(2) del: rx_feed.simps)
    show "rx_buffer (rx_in ?s3) = [] @ rx_buffer (rx_in s)"
      by (simp add: in3 del: rx_feed.simps)
    show "unat (bytecount (ctrl ?s3)) = 3 + length ([] :: byte list)"
      by (simp add: c3 del: rx_feed.simps)
    show "3 + length ([] :: byte list) + length payload \<le> unat (num_bytes (ctrl ?s3))"
      using payload by (simp add: nb del: rx_feed.simps)
    show "length payload \<le> length (rx_buffer (rx_in s))"
      using payload fits wellformed_slot(2) [OF wf] by simp
    show "length ([] :: byte list) + length (rx_buffer (rx_in s)) \<le> RFM12_RX_BUFFER_SIZE cfg"
      using wellformed_slot(2) [OF wf] by simp
  qed
  have c4: "ctrl ?s4 = (ctrl s)\<lparr>bytecount := len + 3, num_bytes := len + PACKET_OVERHEAD,
      rfm12_state := STATE_RX_ACTIVE\<rparr>"
    using payload by (simp add: pay c3 add.commute del: rx_feed.simps)
  have r4: "rf_rx_buffers ?s4 = (rf_rx_buffers s)[?k :=
      (rx_in s)\<lparr>rx_len := len, rx_type := type, rx_checksum := ?ck,
                 rx_buffer := payload @ drop (unat len) (rx_buffer (rx_in s))\<rparr>]"
    using payload by (simp add: pay c3 in3 hdr(2) del: rx_feed.simps)
  have a4: "rfm12_state (ctrl ?s4) = STATE_RX_ACTIVE"
    by (simp add: c4 del: rx_feed.simps)
  have d4: "\<not> bytecount (ctrl ?s4) < num_bytes (ctrl ?s4)"
    by (simp add: c4 PACKET_OVERHEAD_def del: rx_feed.simps)
  note fin = isr_active_done [OF a4 d4, of cfg x]
  have in4: "rx_in ?s4 = (rx_in s)\<lparr>rx_len := len, rx_type := type, rx_checksum := ?ck,
                 rx_buffer := payload @ drop (unat len) (rx_buffer (rx_in s))\<rparr>"
    using k by (simp add: rx_in_def c4 r4 del: rx_feed.simps)
  have feed: "rx_feed cfg ([len, type, ?ck] @ payload @ [x]) s = isr_ffit cfg x ?s4"
    by (simp only: rx_feed_append rx_feed.simps)
  show "ctrl (rx_feed cfg ([len, type, ?ck] @ payload @ [x]) s) =
           (ctrl s)\<lparr>bytecount := len + 3, num_bytes := len + PACKET_OVERHEAD,
                     buffer_in_num := buffer_in_num (ctrl s) XOR 1,
                     rfm12_state := STATE_RX_IDLE\<rparr>"
    unfolding feed fin(1) by (simp add: c4 del: rx_feed.simps)
  show "rf_rx_buffers (rx_feed cfg ([len, type, ?ck] @ payload @ [x]) s) =
           (rf_rx_buffers s)[?k :=
              (rx_in s)\<lparr>rx_len := len, rx_type := type, rx_checksum := ?ck,
                rx_buffer := payload @ drop (unat len) (rx_buffer (rx_in s)),
                rx_status := STATUS_COMPLETE\<rparr>]"
    unfolding feed fin(3) in4 by (simp add: c4 r4 del: rx_feed.simps)
qed

lemma flip_index_neq: "unat (k :: byte) < 2 \<Longrightarrow> unat (k XOR 1) \<noteq> unat k"
  using index_cases [of k] by auto

lemma rx_frame_slot:
  assumes idle: "rfm12_state (ctrl s) = STATE_RX_IDLE"
    and wf: "wellformed cfg s"
    and free: "rx_status (rx_in s) = STATUS_FREE"
    and len: "unat len \<le> 252"
    and fits: "unat len \<le> RFM12_RX_BUFFER_SIZE cfg"
    and payload: "length payload = unat len"
    and tail: "length extra \<le> 1"
  shows "rf_rx_buffers
           (rx_feed cfg ([len, type, len XOR type XOR 0xff] @ payload @ [x] @ extra) s)
           ! unat (buffer_in_num (ctrl s)) =
         (rx_in s)\<lparr>rx_len := len, rx_type := type, rx_checksum := len XOR type XOR 0xff,
                    rx_buffer := payload @ drop (unat len) (rx_buffer (rx_in s)),
                    rx_status := STATUS_COMPLETE\<rparr>"
proof -
  let ?k = "unat (buffer_in_num (ctrl s))"
  let ?frame = "[len, type, len XOR type XOR 0xff] @ payload @ [x]"
  let ?s' = "rx_feed cfg ?frame s"
  note k = wellformed_slot(1) [OF wf]
  note fr = rx_frame [OF idle wf free len fits payload, of type x]
  have completed: "rf_rx_buffers ?s' ! ?k =
      (rx_in s)\<lparr>rx_len := len, rx_type := type, rx_checksum := len XOR type XOR 0xff,
                 rx_buffer := payload @ drop (unat len) (rx_buffer (rx_in s)),
                 rx_status := STATUS_COMPLETE\<rparr>"
    unfolding fr(2) using k by simp
  have split: "rx_feed cfg (?frame @ extra) s = rx_feed cfg extra ?s'"
    by (rule rx_feed_append)
  show ?thesis
  proof (cases extra)
    case Nil
    then show ?thesis using completed by (simp del: rx_feed.simps)
  next
    case (Cons e es)
    then have extra: "extra = [e]" using tail by simp
    have idle': "rfm12_state (ctrl ?s') = STATE_RX_IDLE"
      unfolding fr(1) by simp
    have "unat (buffer_in_num (ctrl s)) < 2"
      using wf by (simp add: wellformed_def)
    then have other: "?k \<noteq> unat (buffer_in_num (ctrl ?s'))"
      unfolding fr(1) using flip_index_neq [of "buffer_in_num (ctrl s)"] by simp
    have "rf_rx_buffers (isr_ffit cfg e ?s') ! ?k = rf_rx_buffers ?s' ! ?k"
      using idle' other by (rule isr_idle_other_slot)
    then show ?thesis
      using completed split unfolding extra by (simp del: rx_feed.simps add: rx_feed.simps(1) rx_feed.simps(2) [of cfg e "[]"])
  qed
qed

text \<open>
  C2, as amended. From \<^verbatim>\<open>STATE_RX_IDLE\<close> with the slot \<^verbatim>\<open>buffer_in_num\<close> free, for every
  header \<open>(len, type, ck)\<close> with \<open>len \<le> 252\<close>: after the three bytes the state machine is in
  \<^verbatim>\<open>STATE_RX_ACTIVE\<close>, ready for the payload (\<^verbatim>\<open>bytecount\<close> 3, header recorded in the slot), if
  \<open>len XOR type XOR ck = 0xff\<close>, and back in \<^verbatim>\<open>STATE_RX_IDLE\<close> otherwise. In both cases no
  payload byte of either slot has changed and no slot has changed its status.
\<close>

theorem rx_header_checksum:
  assumes "rfm12_state (ctrl s) = STATE_RX_IDLE"
    and "wellformed cfg s"
    and "rx_status (rx_in s) = STATUS_FREE"
    and "unat len \<le> 252"
  shows "rfm12_state (ctrl (rx_feed cfg [len, type, ck] s)) =
           (if len XOR type XOR ck = 0xff then STATE_RX_ACTIVE else STATE_RX_IDLE) \<and>
         map rx_buffer (rf_rx_buffers (rx_feed cfg [len, type, ck] s)) =
           map rx_buffer (rf_rx_buffers s) \<and>
         map rx_status (rf_rx_buffers (rx_feed cfg [len, type, ck] s)) =
           map rx_status (rf_rx_buffers s) \<and>
         (len XOR type XOR ck = 0xff \<longrightarrow>
            bytecount (ctrl (rx_feed cfg [len, type, ck] s)) = 3 \<and>
            num_bytes (ctrl (rx_feed cfg [len, type, ck] s)) = len + 3 \<and>
            rx_in (rx_feed cfg [len, type, ck] s) =
              (rx_in s)\<lparr>rx_len := len, rx_type := type, rx_checksum := ck\<rparr>)"
proof -
  note hdr = rx_header [OF assms, of type ck]
  note k = wellformed_slot(1) [OF assms(2)]
  have "map rx_buffer (rf_rx_buffers (rx_feed cfg [len, type, ck] s)) =
          map rx_buffer (rf_rx_buffers s)"
    and "map rx_status (rf_rx_buffers (rx_feed cfg [len, type, ck] s)) =
          map rx_status (rf_rx_buffers s)"
    unfolding hdr(2) using k by (simp_all add: map_update rx_in_def list_update_same_conv)
  moreover have "rx_in (rx_feed cfg [len, type, ck] s) =
      (rx_in s)\<lparr>rx_len := len, rx_type := type, rx_checksum := ck\<rparr>"
    if "len XOR type XOR ck = 0xff"
    using k that unfolding rx_in_def hdr(1,2) by simp
  ultimately show ?thesis
    unfolding hdr(1) by (simp add: PACKET_OVERHEAD_def del: rx_feed.simps)
qed

theorem rx_header_checksum_witness:
  "rfm12_state (ctrl (rx_feed sample_config [2, 7, 0xfa] (power_on sample_config)))
     = STATE_RX_ACTIVE \<and>
   rfm12_state (ctrl (rx_feed sample_config [2, 7, 0xfb] (power_on sample_config)))
     = STATE_RX_IDLE \<and>
   map rx_buffer (rf_rx_buffers (rx_feed sample_config [2, 7, 0xfb] (power_on sample_config)))
     = [[0, 0, 0, 0], [0, 0, 0, 0]]"
proof -
  let ?s = "power_on sample_config"
  have 1: "rfm12_state (ctrl ?s) = STATE_RX_IDLE" by code_simp
  have 2: "wellformed sample_config ?s" by code_simp
  have 3: "rx_status (rx_in ?s) = STATUS_FREE" by code_simp
  have 4: "unat (2 :: byte) \<le> 252" by simp
  have 5: "map rx_buffer (rf_rx_buffers ?s) = [[0, 0, 0, 0], [0, 0, 0, 0]]" by code_simp
  from rx_header_checksum [OF 1 2 3 4, of 7 "0xfa"] rx_header_checksum [OF 1 2 3 4, of 7 "0xfb"]
  show ?thesis
    unfolding 5 by simp
qed

text \<open>
  Without the two conditions the statement fails. With length byte 253 the sum \<open>253 + 3\<close> wraps to
  0 in the byte \<^verbatim>\<open>num_bytes\<close>: the header \<open>(253, 0, 0)\<close>, whose checksum is wrong, is never
  tested; the second byte completes the slot and the third starts a new reception, so the
  state machine ends in \<^verbatim>\<open>STATE_RX_ACTIVE\<close> with slot 0 complete. And when the slot
  \<^verbatim>\<open>buffer_in_num\<close> is not free, the header \<open>(0, 0, 0xff)\<close>, whose checksum is right, is not
  accepted: every byte of it is dropped in \<^verbatim>\<open>STATE_RX_IDLE\<close>.
\<close>

theorem rx_header_checksum_counterexample:
  "(253 :: byte) XOR 0 XOR 0 \<noteq> 0xff \<and>
   rfm12_state (ctrl (power_on sample_config)) = STATE_RX_IDLE \<and>
   rx_status (rx_in (power_on sample_config)) = STATUS_FREE \<and>
   rfm12_state (ctrl (rx_feed sample_config [253, 0, 0] (power_on sample_config)))
     = STATE_RX_ACTIVE \<and>
   rx_status (rf_rx_buffers (rx_feed sample_config [253, 0, 0] (power_on sample_config)) ! 0)
     = STATUS_COMPLETE \<and>
   (0 :: byte) XOR 0 XOR 0xff = 0xff \<and>
   rfm12_state (ctrl (both_complete sample_config)) = STATE_RX_IDLE \<and>
   rfm12_state (ctrl (rx_feed sample_config [0, 0, 0xff] (both_complete sample_config)))
     = STATE_RX_IDLE \<and>
   bytecount (ctrl (rx_feed sample_config [0, 0, 0xff] (both_complete sample_config))) = 1"
  by code_simp

section \<open>Round trip\<close>

lemma heard_frame:
  assumes "heard (map Some xs @ [tr, Some c]) bs"
  shows "\<exists>x. bs = xs @ [x, c]"
proof -
  let ?P = "\<lambda>a b. a = None \<or> a = Some (b :: byte)"
  from assms obtain us vs where bs: "bs = us @ vs"
    and us: "list_all2 ?P (map Some xs) us" and vs: "list_all2 ?P [tr, Some c] vs"
    unfolding heard_def by (auto simp: list_all2_append1)
  from us have "list_all2 (=) xs us"
    by (simp add: list_all2_map1)
  then have "us = xs"
    by (simp add: list.rel_eq)
  moreover from vs obtain x where "vs = [x, c]"
    by (auto simp: list_all2_Cons1)
  ultimately show ?thesis
    using bs by simp
qed

text \<open>
  C3, as amended. A transmitter \<open>t\<close> and a receiver \<open>r\<close> run the driver in the same
  configuration. For every packet whose length exceeds neither the capacity of the
  transmit buffer, nor that of a receive slot, nor 249: when \<open>t\<close> enqueues and sends it and
  the bytes it puts on the air after the preamble and the sync pattern are fed to the
  handler of \<open>r\<close>, which is idle with its slot \<^verbatim>\<open>buffer_in_num\<close> free, that slot ends up
  complete and holds the length, the type and the payload bytes of the packet, whatever
  the value of a trailer byte from outside the transmit buffer. This is so once the trailer
  byte is in, and the dummy byte \<open>0xaa\<close> that follows does not change it.
\<close>

theorem round_trip:
  assumes "wellformed cfg t"
    and "rfm12_state (ctrl t) = STATE_RX_IDLE"
    and "txstate (ctrl t) = STATUS_FREE"
    and "channel_free_count t = 0"
    and "status AND RFM12_STATUS_RSSI cfg = 0"
    and "unat len \<le> RFM12_TX_BUFFER_SIZE cfg"
    and "unat len \<le> 249"
    and "unat len \<le> length data"
    and "unat len \<le> RFM12_RX_BUFFER_SIZE cfg"
    and "wellformed cfg r"
    and "rfm12_state (ctrl r) = STATE_RX_IDLE"
    and "rx_status (rx_in r) = STATUS_FREE"
    and "heard (fifo_input (on_air t (transmit cfg status len type data t))) frame"
  shows "(let slot = delivered cfg frame r
          in rx_status slot = STATUS_COMPLETE \<and> rx_len slot = len \<and> rx_type slot = type \<and>
             take (unat len) (rx_buffer slot) = take (unat len) data \<and>
             delivered cfg (butlast frame) r = slot)"
proof -
  let ?ck = "len XOR type XOR 0xff"
  let ?payload = "take (unat len) data"
  let ?slot = "(rx_in r)\<lparr>rx_len := len, rx_type := type, rx_checksum := ?ck,
      rx_buffer := ?payload @ drop (unat len) (rx_buffer (rx_in r)),
      rx_status := STATUS_COMPLETE\<rparr>"
  have sync: "length (tx_sync (rf_tx_buffer t)) = 2"
    using assms(1) by (simp add: wellformed_def)
  from transmit_bus(1) [OF assms(1-8)] sync
  have "\<exists>tr. fifo_input (on_air t (transmit cfg status len type data t)) =
      map Some ([len, type, ?ck] @ ?payload) @ [tr, Some 0xaa]"
    by (simp add: on_air_def fifo_input_def)
  then obtain x where frame: "frame = ([len, type, ?ck] @ ?payload) @ [x, 0xaa]"
    using assms(13) heard_frame by metis
  have long: "frame = [len, type, ?ck] @ ?payload @ [x] @ [0xaa]"
    and short: "butlast frame = [len, type, ?ck] @ ?payload @ [x] @ []"
    unfolding frame by (simp_all add: butlast_append)
  have len: "unat len \<le> 252"
    using assms(7) by simp
  have payload: "length ?payload = unat len"
    using assms(8) by simp
  have full: "delivered cfg frame r = ?slot"
    unfolding delivered_def long
    by (rule rx_frame_slot [OF assms(11,10,12) len assms(9) payload]) simp
  have part: "delivered cfg (butlast frame) r = ?slot"
    unfolding delivered_def short
    by (rule rx_frame_slot [OF assms(11,10,12) len assms(9) payload]) simp
  show ?thesis
    unfolding Let_def full part using payload by simp
qed

theorem round_trip_witness:
  "heard (fifo_input (on_air (channel_clear sample_config)
        (transmit sample_config 0 4 7 [0x11, 0x22, 0x33, 0x44] (channel_clear sample_config))))
     [4, 7, 0xfc, 0x11, 0x22, 0x33, 0x44, 0x99, 0xaa] \<and>
   delivered sample_config [4, 7, 0xfc, 0x11, 0x22, 0x33, 0x44, 0x99, 0xaa]
     (power_on sample_config)
   = \<lparr>rx_status = STATUS_COMPLETE, rx_len = 4, rx_type = 7, rx_checksum = 0xfc,
      rx_buffer = [0x11, 0x22, 0x33, 0x44]\<rparr>"
proof -
  let ?t = "channel_clear sample_config"
  let ?r = "power_on sample_config"
  let ?frame = "[4, 7, 0xfc, 0x11, 0x22, 0x33, 0x44, 0x99, 0xaa] :: byte list"
  let ?slot = "delivered sample_config ?frame ?r"
  have 1: "wellformed sample_config ?t" by code_simp
  have 2: "rfm12_state (ctrl ?t) = STATE_RX_IDLE" by code_simp
  have 3: "txstate (ctrl ?t) = STATUS_FREE" by code_simp
  have 4: "channel_free_count ?t = 0" by code_simp
  have 5: "(0 :: 16 word) AND RFM12_STATUS_RSSI sample_config = 0" by simp
  have 6: "unat (4 :: byte) \<le> RFM12_TX_BUFFER_SIZE sample_config" by code_simp
  have 7: "unat (4 :: byte) \<le> 249" by simp
  have 8: "unat (4 :: byte) \<le> length [0x11, 0x22, 0x33, 0x44 :: byte]" by simp
  have 9: "unat (4 :: byte) \<le> RFM12_RX_BUFFER_SIZE sample_config" by code_simp
  have 10: "wellformed sample_config ?r" by code_simp
  have 11: "rfm12_state (ctrl ?r) = STATE_RX_IDLE" by code_simp
  have 12: "rx_status (rx_in ?r) = STATUS_FREE" by code_simp
  have 13: "heard (fifo_input (on_air ?t
      (transmit sample_config 0 4 7 [0x11, 0x22, 0x33, 0x44] ?t))) ?frame" by code_simp
  have ck: "rx_checksum ?slot = 0xfc" and buf: "length (rx_buffer ?slot) = 4"
    by code_simp+
  from round_trip [OF 1 2 3 4 5 6 7 8 9 10 11 12 13]
  have "rx_status ?slot = STATUS_COMPLETE \<and> rx_len ?slot = 4 \<and> rx_type ?slot = 7 \<and>
        take 4 (rx_buffer ?slot) = [0x11, 0x22, 0x33, 0x44]"
    by (simp add: Let_def)
  then have "?slot = \<lparr>rx_status = STATUS_COMPLETE, rx_len = 4, rx_type = 7, rx_checksum = 0xfc,
      rx_buffer = [0x11, 0x22, 0x33, 0x44]\<rparr>"
    using ck buf by (cases ?slot) simp
  then show ?thesis
    using 13 by simp
qed

text \<open>
  Three cases outside this statement. Fed with everything that went on the air, preamble
  and sync pattern included, the handler takes \<open>0xaa\<close> for a length byte and completes no
  slot. With receive slots of 2 bytes a packet of 4 bytes arrives with its first 2 payload
  bytes only. And with 250-byte buffers a packet of length 250 is accepted but never sent
  (\<open>250 + 6\<close> wraps to 0 in \<^verbatim>\<open>num_bytes\<close>), so the slot stays free.
\<close>

theorem round_trip_counterexample:
  "heard (on_air (channel_clear sample_config)
        (transmit sample_config 0 4 7 [0x11, 0x22, 0x33, 0x44] (channel_clear sample_config)))
     [0xaa, 0xaa, 0x2d, 0xd4, 4, 7, 0xfc, 0x11, 0x22, 0x33, 0x44, 0x99, 0xaa] \<and>
   rx_status (delivered sample_config
     [0xaa, 0xaa, 0x2d, 0xd4, 4, 7, 0xfc, 0x11, 0x22, 0x33, 0x44, 0x99, 0xaa]
     (power_on sample_config)) = STATUS_FREE \<and>
   heard (fifo_input (on_air (channel_clear narrow_rx_config)
        (transmit narrow_rx_config 0 4 7 [0x11, 0x22, 0x33, 0x44] (channel_clear narrow_rx_config))))
     [4, 7, 0xfc, 0x11, 0x22, 0x33, 0x44, 0x99, 0xaa] \<and>
   rx_buffer (delivered narrow_rx_config [4, 7, 0xfc, 0x11, 0x22, 0x33, 0x44, 0x99, 0xaa]
     (power_on narrow_rx_config)) = [0x11, 0x22] \<and>
   unat (250 :: byte) \<le> RFM12_TX_BUFFER_SIZE large_config \<and>
   unat (250 :: byte) \<le> RFM12_RX_BUFFER_SIZE large_config \<and>
   fst (rfm12_tx large_config 250 7 (replicate 250 0x11) (channel_clear large_config))
     = RFM12_TX_ENQUEUED \<and>
   heard (fifo_input (on_air (channel_clear large_config)
        (transmit large_config 0 250 7 (replicate 250 0x11) (channel_clear large_config)))) [] \<and>
   rx_status (delivered large_config [] (power_on large_config)) = STATUS_FREE"
  by code_simp

end
